theory Spec2Isabelle
  imports Complex_Main "HOL-Library.Sublist"
begin

section \<open>Values, tokens and exceptions\<close>

text \<open>
  The interpreter computes with Python numbers. An \<open>int\<close> is an unbounded integer. A
  \<open>float\<close> is modelled by the real number it denotes, and a \<open>complex\<close>, which a negative
  base raised to a fractional power gives, by the complex number it denotes: rounding,
  overflow, infinities and NaN are not part of the model. \<open>VNone\<close> is Python's \<open>None\<close>,
  the result of evaluating an \<open>if\<close>, a \<open>while\<close> or an empty block. The source text is
  ASCII. Python's limits on the depth of recursion and on the digits of an integer
  literal are not modelled.
\<close>

datatype val = VInt int | VFloat real | VComplex complex | VNone

datatype ttype =
    NUMBER | IDENT | PLUS | MINUS | MUL | DIV | MOD | POW | ASSIGN
  | EQ | NEQ | LT | GT | LTE | GTE | LPAREN | RPAREN
  | PRINT | IF | ELSE | WHILE | LBRACE | RBRACE | SEMICOL | EOF

text \<open>
  The \<open>value\<close> field of a token is a number for \<open>NUMBER\<close>, the matched text for every
  other lexical rule and \<open>None\<close> for \<open>EOF\<close>.
\<close>

datatype tvalue = Num (the_num: val) | Txt (the_txt: string) | NoValue

record token =
  ttype :: ttype
  tvalue :: tvalue
  line :: nat

text \<open>
  Every \<open>raise\<close> of the source, and every exception of Python itself that the modelled
  code can meet, is a value of \<open>error\<close>; \<open>class_of\<close> gives the Python class that the
  \<open>except\<close> clause of \<open>run\<close> tests.
\<close>

datatype error =
    UnknownCharacter char nat
  | Expected ttype token
  | Unexpected token
  | UndefinedVariable string
  | DivisionByZero
  | NativeZeroDivision
  | InfiniteLoop
  | NativeTypeError
  | NativeIndexError
  | NativeKeyError string

datatype exn_class =
    SyntaxError | NameError | ZeroDivisionError | RuntimeError
  | TypeError | IndexError | KeyError

fun class_of :: "error \<Rightarrow> exn_class" where
  "class_of (UnknownCharacter c lno) = SyntaxError"
| "class_of (Expected ty tok) = SyntaxError"
| "class_of (Unexpected tok) = SyntaxError"
| "class_of (UndefinedVariable x) = NameError"
| "class_of DivisionByZero = ZeroDivisionError"
| "class_of NativeZeroDivision = ZeroDivisionError"
| "class_of InfiniteLoop = RuntimeError"
| "class_of NativeTypeError = TypeError"
| "class_of NativeIndexError = IndexError"
| "class_of (NativeKeyError k) = KeyError"

section \<open>Lexer\<close>

definition newline :: char where
  "newline = CHR 0x0A"

text \<open>\<open>str.isspace\<close> on ASCII: tab, line feed, vertical tab, form feed, carriage return,
  the four separators 0x1C to 0x1F, and the space.\<close>

definition isspace :: "char \<Rightarrow> bool" where
  "isspace c = (c \<in> set [CHR 0x09, CHR 0x0A, CHR 0x0B, CHR 0x0C, CHR 0x0D,
                          CHR 0x1C, CHR 0x1D, CHR 0x1E, CHR 0x1F, CHR 0x20])"

definition is_digit :: "char \<Rightarrow> bool" where
  "is_digit c = (c \<in> set ''0123456789'')"

definition is_ident_start :: "char \<Rightarrow> bool" where
  "is_ident_start c =
     (c \<in> set ''abcdefghijklmnopqrstuvwxyzABCDEFGHIJKLMNOPQRSTUVWXYZ_'')"

definition is_word :: "char \<Rightarrow> bool" where
  "is_word c = (is_ident_start c \<or> is_digit c)"

definition KEYWORDS :: "string list" where
  "KEYWORDS = [''print'', ''if'', ''else'', ''while'']"

text \<open>The three shapes of regular expression in \<open>TOKEN_PATTERNS\<close>: the number
  \<open>\d+(\.\d+)?\<close>, the identifier \<open>[a-zA-Z_]\w*\<close>, and a literal text.\<close>

datatype pattern = ReNumber | ReIdent | ReLit string

definition TOKEN_PATTERNS :: "(pattern \<times> ttype) list" where
  "TOKEN_PATTERNS =
     [(ReNumber, NUMBER), (ReIdent, IDENT),
      (ReLit ''=='', EQ), (ReLit ''!='', NEQ), (ReLit ''<='', LTE), (ReLit ''>='', GTE),
      (ReLit ''<'', LT), (ReLit ''>'', GT), (ReLit ''='', ASSIGN),
      (ReLit ''+'', PLUS), (ReLit ''-'', MINUS), (ReLit ''**'', POW), (ReLit ''*'', MUL),
      (ReLit ''/'', DIV), (ReLit ''%'', MOD), (ReLit ''('', LPAREN), (ReLit '')'', RPAREN),
      (ReLit ''{'', LBRACE), (ReLit ''}'', RBRACE), (ReLit '';'', SEMICOL)]"

text \<open>\<open>re.match\<close>: the text matched at the start of \<open>s\<close>, if any. The number rule is
  greedy: all the digits, then a dot only when a digit follows it.\<close>

fun re_match :: "pattern \<Rightarrow> string \<Rightarrow> string option" where
  "re_match ReNumber s =
     (let ds = takeWhile is_digit s; r = dropWhile is_digit s
      in if ds = [] then None
         else (case r of
                 [] \<Rightarrow> Some ds
               | c # r' \<Rightarrow>
                   if c = CHR ''.'' \<and> takeWhile is_digit r' \<noteq> []
                   then Some (ds @ c # takeWhile is_digit r')
                   else Some ds))"
| "re_match ReIdent s =
     (case s of
        [] \<Rightarrow> None
      | c # r \<Rightarrow> if is_ident_start c then Some (c # takeWhile is_word r) else None)"
| "re_match (ReLit l) s = (if prefix l s then Some l else None)"

text \<open>The \<open>for pattern, ttype in TOKEN_PATTERNS\<close> loop with its \<open>break\<close>: the first
  rule that matches wins.\<close>

fun first_match :: "(pattern \<times> ttype) list \<Rightarrow> string \<Rightarrow> (ttype \<times> string) option" where
  "first_match [] s = None"
| "first_match ((p, ty) # ps) s =
     (case re_match p s of
        Some txt \<Rightarrow> Some (ty, txt)
      | None \<Rightarrow> first_match ps s)"

definition digit_val :: "char \<Rightarrow> nat" where
  "digit_val c = of_char c - 48"

definition digits_val :: "string \<Rightarrow> nat" where
  "digits_val ds = foldl (\<lambda>a c. 10 * a + digit_val c) 0 ds"

text \<open>\<open>float(val) if '.' in val else int(val)\<close>\<close>

definition number_value :: "string \<Rightarrow> val" where
  "number_value txt =
     (if CHR ''.'' \<in> set txt
      then (let ip = takeWhile (\<lambda>c. c \<noteq> CHR ''.'') txt;
                fp = tl (dropWhile (\<lambda>c. c \<noteq> CHR ''.'') txt)
            in VFloat (real (digits_val (ip @ fp)) / 10 ^ length fp))
      else VInt (int (digits_val txt)))"

text \<open>\<open>val.upper()\<close> on a keyword is the name of its token type.\<close>

definition upper :: "string \<Rightarrow> ttype" where
  "upper txt =
     (if txt = ''print'' then PRINT else if txt = ''if'' then IF
      else if txt = ''else'' then ELSE else WHILE)"

definition make_token :: "ttype \<Rightarrow> string \<Rightarrow> nat \<Rightarrow> token" where
  "make_token ty txt lno =
     (if ty = NUMBER then \<lparr>ttype = NUMBER, tvalue = Num (number_value txt), line = lno\<rparr>
      else if ty = IDENT \<and> txt \<in> set KEYWORDS
      then \<lparr>ttype = upper txt, tvalue = Txt txt, line = lno\<rparr>
      else \<lparr>ttype = ty, tvalue = Txt txt, line = lno\<rparr>)"

lemma re_match_nonempty: "re_match p s = Some txt \<Longrightarrow> p \<noteq> ReLit [] \<Longrightarrow> txt \<noteq> []"
  by (cases p) (auto simp: Let_def split: if_splits list.splits)

lemma first_match_nonempty:
  "first_match ps s = Some (ty, txt) \<Longrightarrow> ReLit [] \<notin> fst ` set ps \<Longrightarrow> txt \<noteq> []"
  by (induction ps s rule: first_match.induct)
     (auto split: option.splits dest: re_match_nonempty)

lemma token_patterns_nonempty: "ReLit [] \<notin> fst ` set TOKEN_PATTERNS"
  by (simp add: TOKEN_PATTERNS_def)

text \<open>
  \<open>Lexer.tokenize\<close>. The lexer's fields are the arguments: the source from \<open>pos\<close> on,
  \<open>line\<close> and \<open>tokens\<close>. One equation per pass of the outer \<open>while\<close>: white space, a
  comment up to the next line feed, or the first lexical rule that matches.
\<close>

function tokenize_from :: "string \<Rightarrow> nat \<Rightarrow> token list \<Rightarrow> error + token list" where
  "tokenize_from [] lno toks = Inr (toks @ [\<lparr>ttype = EOF, tvalue = NoValue, line = lno\<rparr>])"
| "tokenize_from (c # s) lno toks =
     (if isspace c then tokenize_from s (if c = newline then lno + 1 else lno) toks
      else if take 2 (c # s) = ''//''
      then tokenize_from (dropWhile (\<lambda>d. d \<noteq> newline) (c # s)) lno toks
      else (case first_match TOKEN_PATTERNS (c # s) of
              None \<Rightarrow> Inl (UnknownCharacter c lno)
            | Some (ty, txt) \<Rightarrow>
                tokenize_from (drop (length txt) (c # s)) lno (toks @ [make_token ty txt lno])))"
  by pat_completeness auto
termination
proof (relation "measure (\<lambda>(s, lno, toks). length s)")
  show "wf (measure (\<lambda>(s, lno, toks). length s))" by simp
next
  fix c s lno toks
  show "((s, (if c = newline then lno + 1 else lno), toks), (c # s, lno, toks))
          \<in> measure (\<lambda>(s, lno, toks). length s)"
    by simp
next
  fix c :: char and s :: string and lno :: nat and toks :: "token list"
  assume "take 2 (c # s) = ''//''"
  then have "c \<noteq> newline" by (auto simp: newline_def)
  then have "length (dropWhile (\<lambda>d. d \<noteq> newline) (c # s)) \<le> length s"
    by (simp add: length_dropWhile_le)
  then show "((dropWhile (\<lambda>d. d \<noteq> newline) (c # s), lno, toks), (c # s, lno, toks))
          \<in> measure (\<lambda>(s, lno, toks). length s)"
    by simp
next
  fix c :: char and s :: string and lno :: nat and toks :: "token list" and x2 ty lexeme
  assume "first_match TOKEN_PATTERNS (c # s) = Some x2" "(ty, lexeme) = x2"
  then have "lexeme \<noteq> []"
    using first_match_nonempty token_patterns_nonempty by metis
  then show "((drop (length lexeme) (c # s), lno, toks @ [make_token ty lexeme lno]), (c # s, lno, toks))
          \<in> measure (\<lambda>(s, lno, toks). length s)"
    by (cases lexeme) auto
qed

definition tokenize :: "string \<Rightarrow> error + token list" where
  "tokenize source = tokenize_from source 1 []"

section \<open>Abstract syntax\<close>

text \<open>The node classes, one constructor each. A number node holds the token's number, a
  binary or unary node the operator's text.\<close>

datatype node =
    NumberNode val
  | VarNode string
  | BinOpNode node string node
  | UnaryNode string node
  | AssignNode string node
  | PrintNode node
  | IfNode node "node list" "node list option"
  | WhileNode node "node list"
  | BlockNode "node list"

section \<open>Parser\<close>

text \<open>
  A parsing method takes the tokens from \<open>pos\<close> on and returns the node with the tokens
  left, or the exception. The methods call one another in a cycle, so each takes a bound
  \<open>n\<close> on the nesting and the repetitions still allowed; \<open>None\<close> says that the bound
  was reached. The bound is spent where a method repeats or re-enters the grammar
  after reading a token.
\<close>

type_synonym 'a parsed = "(error + 'a \<times> token list) option"


text \<open>\<open>Parser.current\<close> reads \<open>tokens[pos]\<close>; the model keeps the tokens from \<open>pos\<close> on, so
  reading past the end is the empty list, an \<open>IndexError\<close>.\<close>

definition eat :: "ttype \<Rightarrow> token list \<Rightarrow> error + token \<times> token list" where
  "eat ty ts =
     (case ts of
        [] \<Rightarrow> Inl NativeIndexError
      | tok # rest \<Rightarrow> if ttype tok \<noteq> ty then Inl (Expected ty tok) else Inr (tok, rest))"

definition optional_semicolon :: "token list \<Rightarrow> error + token list" where
  "optional_semicolon ts =
     (case ts of
        [] \<Rightarrow> Inl NativeIndexError
      | tok # rest \<Rightarrow> Inr (if ttype tok = SEMICOL then rest else ts))"

definition comparison_ops :: "ttype \<Rightarrow> string option" where
  "comparison_ops ty =
     (if ty = EQ then Some ''=='' else if ty = NEQ then Some ''!=''
      else if ty = LT then Some ''<'' else if ty = GT then Some ''>''
      else if ty = LTE then Some ''<='' else if ty = GTE then Some ''>=''
      else None)"

function expression :: "nat \<Rightarrow> token list \<Rightarrow> node parsed"
  and comparison :: "nat \<Rightarrow> token list \<Rightarrow> node parsed"
  and comparison_loop :: "nat \<Rightarrow> node \<Rightarrow> token list \<Rightarrow> node parsed"
  and additive :: "nat \<Rightarrow> token list \<Rightarrow> node parsed"
  and additive_loop :: "nat \<Rightarrow> node \<Rightarrow> token list \<Rightarrow> node parsed"
  and multiplicative :: "nat \<Rightarrow> token list \<Rightarrow> node parsed"
  and multiplicative_loop :: "nat \<Rightarrow> node \<Rightarrow> token list \<Rightarrow> node parsed"
  and power :: "nat \<Rightarrow> token list \<Rightarrow> node parsed"
  and unary :: "nat \<Rightarrow> token list \<Rightarrow> node parsed"
  and primary :: "nat \<Rightarrow> token list \<Rightarrow> node parsed"
where
  "expression n ts = comparison n ts"
| "comparison n ts =
     (case additive n ts of
        None \<Rightarrow> None
      | Some (Inl e) \<Rightarrow> Some (Inl e)
      | Some (Inr (left, rest)) \<Rightarrow> comparison_loop n left rest)"
| "comparison_loop n left ts =
     (case ts of
        [] \<Rightarrow> Some (Inl NativeIndexError)
      | tok # rest \<Rightarrow>
          (case comparison_ops (ttype tok) of
             None \<Rightarrow> Some (Inr (left, ts))
           | Some op \<Rightarrow>
               (case n of
                  0 \<Rightarrow> None
                | Suc m \<Rightarrow>
                    (case additive m rest of
                       None \<Rightarrow> None
                     | Some (Inl e) \<Rightarrow> Some (Inl e)
                     | Some (Inr (right, rest')) \<Rightarrow>
                         comparison_loop m (BinOpNode left op right) rest'))))"
| "additive n ts =
     (case multiplicative n ts of
        None \<Rightarrow> None
      | Some (Inl e) \<Rightarrow> Some (Inl e)
      | Some (Inr (left, rest)) \<Rightarrow> additive_loop n left rest)"
| "additive_loop n left ts =
     (case ts of
        [] \<Rightarrow> Some (Inl NativeIndexError)
      | tok # rest \<Rightarrow>
          if ttype tok = PLUS \<or> ttype tok = MINUS
          then (case n of
                  0 \<Rightarrow> None
                | Suc m \<Rightarrow>
                    (case multiplicative m rest of
                       None \<Rightarrow> None
                     | Some (Inl e) \<Rightarrow> Some (Inl e)
                     | Some (Inr (right, rest')) \<Rightarrow>
                         additive_loop m (BinOpNode left (the_txt (tvalue tok)) right) rest'))
          else Some (Inr (left, ts)))"
| "multiplicative n ts =
     (case power n ts of
        None \<Rightarrow> None
      | Some (Inl e) \<Rightarrow> Some (Inl e)
      | Some (Inr (left, rest)) \<Rightarrow> multiplicative_loop n left rest)"
| "multiplicative_loop n left ts =
     (case ts of
        [] \<Rightarrow> Some (Inl NativeIndexError)
      | tok # rest \<Rightarrow>
          if ttype tok = MUL \<or> ttype tok = DIV \<or> ttype tok = MOD
          then (case n of
                  0 \<Rightarrow> None
                | Suc m \<Rightarrow>
                    (case power m rest of
                       None \<Rightarrow> None
                     | Some (Inl e) \<Rightarrow> Some (Inl e)
                     | Some (Inr (right, rest')) \<Rightarrow>
                         multiplicative_loop m (BinOpNode left (the_txt (tvalue tok)) right) rest'))
          else Some (Inr (left, ts)))"
| "power n ts =
     (case unary n ts of
        None \<Rightarrow> None
      | Some (Inl e) \<Rightarrow> Some (Inl e)
      | Some (Inr (base, rest)) \<Rightarrow>
          (case rest of
             [] \<Rightarrow> Some (Inl NativeIndexError)
           | tok # rest' \<Rightarrow>
               if ttype tok = POW
               then (case n of
                       0 \<Rightarrow> None
                     | Suc m \<Rightarrow>
                         (case power m rest' of
                            None \<Rightarrow> None
                          | Some (Inl e) \<Rightarrow> Some (Inl e)
                          | Some (Inr (expo, rest'')) \<Rightarrow>
                              Some (Inr (BinOpNode base ''**'' expo, rest''))))
               else Some (Inr (base, rest))))"
| "unary n ts =
     (case ts of
        [] \<Rightarrow> Some (Inl NativeIndexError)
      | tok # rest \<Rightarrow>
          if ttype tok = MINUS
          then (case primary n rest of
                  None \<Rightarrow> None
                | Some (Inl e) \<Rightarrow> Some (Inl e)
                | Some (Inr (operand, rest')) \<Rightarrow> Some (Inr (UnaryNode ''-'' operand, rest')))
          else primary n ts)"
| "primary n ts =
     (case ts of
        [] \<Rightarrow> Some (Inl NativeIndexError)
      | tok # rest \<Rightarrow>
          if ttype tok = NUMBER then Some (Inr (NumberNode (the_num (tvalue tok)), rest))
          else if ttype tok = IDENT then Some (Inr (VarNode (the_txt (tvalue tok)), rest))
          else if ttype tok = LPAREN
          then (case n of
                  0 \<Rightarrow> None
                | Suc m \<Rightarrow>
                    (case expression m rest of
                       None \<Rightarrow> None
                     | Some (Inl e) \<Rightarrow> Some (Inl e)
                     | Some (Inr (expr, rest')) \<Rightarrow>
                         (case eat RPAREN rest' of
                            Inl e \<Rightarrow> Some (Inl e)
                          | Inr (tok', rest'') \<Rightarrow> Some (Inr (expr, rest'')))))
          else Some (Inl (Unexpected tok)))"

  by pat_completeness auto
termination
  by (relation "measures
        [\<lambda>x. case x of
            Inl (Inl (Inl (n, ts))) \<Rightarrow> n
          | Inl (Inl (Inr (n, ts))) \<Rightarrow> n
          | Inl (Inr (Inl (n, left, ts))) \<Rightarrow> n
          | Inl (Inr (Inr (Inl (n, ts)))) \<Rightarrow> n
          | Inl (Inr (Inr (Inr (n, left, ts)))) \<Rightarrow> n
          | Inr (Inl (Inl (n, ts))) \<Rightarrow> n
          | Inr (Inl (Inr (n, left, ts))) \<Rightarrow> n
          | Inr (Inr (Inl (n, ts))) \<Rightarrow> n
          | Inr (Inr (Inr (Inl (n, ts)))) \<Rightarrow> n
          | Inr (Inr (Inr (Inr (n, ts)))) \<Rightarrow> n,
         \<lambda>x. case x of
            Inl (Inl (Inl (n, ts))) \<Rightarrow> 9
          | Inl (Inl (Inr (n, ts))) \<Rightarrow> 8
          | Inl (Inr (Inl (n, left, ts))) \<Rightarrow> 7
          | Inl (Inr (Inr (Inl (n, ts)))) \<Rightarrow> 6
          | Inl (Inr (Inr (Inr (n, left, ts)))) \<Rightarrow> 5
          | Inr (Inl (Inl (n, ts))) \<Rightarrow> 4
          | Inr (Inl (Inr (n, left, ts))) \<Rightarrow> 3
          | Inr (Inr (Inl (n, ts))) \<Rightarrow> 2
          | Inr (Inr (Inr (Inl (n, ts)))) \<Rightarrow> 1
          | Inr (Inr (Inr (Inr (n, ts)))) \<Rightarrow> 0]")
     auto


function statement :: "nat \<Rightarrow> token list \<Rightarrow> node parsed"
  and if_stmt :: "nat \<Rightarrow> token list \<Rightarrow> node parsed"
  and while_stmt :: "nat \<Rightarrow> token list \<Rightarrow> node parsed"
  and statements_until :: "nat \<Rightarrow> ttype \<Rightarrow> node list \<Rightarrow> token list \<Rightarrow> (node list) parsed"
where
  "statement n ts =
     (case ts of
        [] \<Rightarrow> Some (Inl NativeIndexError)
      | tok # rest \<Rightarrow>
          if ttype tok = PRINT
          then (case eat LPAREN rest of
                  Inl e \<Rightarrow> Some (Inl e)
                | Inr (t1, r1) \<Rightarrow>
                    (case expression n r1 of
                       None \<Rightarrow> None
                     | Some (Inl e) \<Rightarrow> Some (Inl e)
                     | Some (Inr (expr, r2)) \<Rightarrow>
                         (case eat RPAREN r2 of
                            Inl e \<Rightarrow> Some (Inl e)
                          | Inr (t3, r3) \<Rightarrow>
                              (case optional_semicolon r3 of
                                 Inl e \<Rightarrow> Some (Inl e)
                               | Inr r4 \<Rightarrow> Some (Inr (PrintNode expr, r4))))))
          else if ttype tok = IF then if_stmt n ts
          else if ttype tok = WHILE then while_stmt n ts
          else if ttype tok = IDENT
          then (case rest of
                  [] \<Rightarrow> Some (Inl NativeIndexError)
                | tok2 # r2 \<Rightarrow>
                    if ttype tok2 = ASSIGN
                    then (case expression n r2 of
                            None \<Rightarrow> None
                          | Some (Inl e) \<Rightarrow> Some (Inl e)
                          | Some (Inr (v, r3)) \<Rightarrow>
                              (case optional_semicolon r3 of
                                 Inl e \<Rightarrow> Some (Inl e)
                               | Inr r4 \<Rightarrow>
                                   Some (Inr (AssignNode (the_txt (tvalue tok)) v, r4))))
                    else (case expression n ts of
                            None \<Rightarrow> None
                          | Some (Inl e) \<Rightarrow> Some (Inl e)
                          | Some (Inr (expr, r3)) \<Rightarrow>
                              (case optional_semicolon r3 of
                                 Inl e \<Rightarrow> Some (Inl e)
                               | Inr r4 \<Rightarrow> Some (Inr (expr, r4)))))
          else (case expression n ts of
                  None \<Rightarrow> None
                | Some (Inl e) \<Rightarrow> Some (Inl e)
                | Some (Inr (expr, r3)) \<Rightarrow>
                    (case optional_semicolon r3 of
                       Inl e \<Rightarrow> Some (Inl e)
                     | Inr r4 \<Rightarrow> Some (Inr (expr, r4)))))"
| "if_stmt n ts =
     (case eat IF ts of
        Inl e \<Rightarrow> Some (Inl e)
      | Inr (t1, r1) \<Rightarrow>
     (case eat LPAREN r1 of
        Inl e \<Rightarrow> Some (Inl e)
      | Inr (t2, r2) \<Rightarrow>
     (case expression n r2 of
        None \<Rightarrow> None
      | Some (Inl e) \<Rightarrow> Some (Inl e)
      | Some (Inr (cond, r3)) \<Rightarrow>
     (case eat RPAREN r3 of
        Inl e \<Rightarrow> Some (Inl e)
      | Inr (t4, r4) \<Rightarrow>
     (case eat LBRACE r4 of
        Inl e \<Rightarrow> Some (Inl e)
      | Inr (t5, r5) \<Rightarrow>
     (case n of
        0 \<Rightarrow> None
      | Suc m \<Rightarrow>
     (case statements_until m RBRACE [] r5 of
        None \<Rightarrow> None
      | Some (Inl e) \<Rightarrow> Some (Inl e)
      | Some (Inr (then_body, r6)) \<Rightarrow>
     (case eat RBRACE r6 of
        Inl e \<Rightarrow> Some (Inl e)
      | Inr (t7, r7) \<Rightarrow>
     (case r7 of
        [] \<Rightarrow> Some (Inl NativeIndexError)
      | tok # r8 \<Rightarrow>
          if ttype tok = ELSE
          then (case eat LBRACE r8 of
                  Inl e \<Rightarrow> Some (Inl e)
                | Inr (t9, r9) \<Rightarrow>
               (case statements_until m RBRACE [] r9 of
                  None \<Rightarrow> None
                | Some (Inl e) \<Rightarrow> Some (Inl e)
                | Some (Inr (else_body, r10)) \<Rightarrow>
               (case eat RBRACE r10 of
                  Inl e \<Rightarrow> Some (Inl e)
                | Inr (t11, r11) \<Rightarrow>
                    Some (Inr (IfNode cond then_body (Some else_body), r11)))))
          else Some (Inr (IfNode cond then_body None, r7)))))))))))"
| "while_stmt n ts =
     (case eat WHILE ts of
        Inl e \<Rightarrow> Some (Inl e)
      | Inr (t1, r1) \<Rightarrow>
     (case eat LPAREN r1 of
        Inl e \<Rightarrow> Some (Inl e)
      | Inr (t2, r2) \<Rightarrow>
     (case expression n r2 of
        None \<Rightarrow> None
      | Some (Inl e) \<Rightarrow> Some (Inl e)
      | Some (Inr (cond, r3)) \<Rightarrow>
     (case eat RPAREN r3 of
        Inl e \<Rightarrow> Some (Inl e)
      | Inr (t4, r4) \<Rightarrow>
     (case eat LBRACE r4 of
        Inl e \<Rightarrow> Some (Inl e)
      | Inr (t5, r5) \<Rightarrow>
     (case n of
        0 \<Rightarrow> None
      | Suc m \<Rightarrow>
     (case statements_until m RBRACE [] r5 of
        None \<Rightarrow> None
      | Some (Inl e) \<Rightarrow> Some (Inl e)
      | Some (Inr (body, r6)) \<Rightarrow>
     (case eat RBRACE r6 of
        Inl e \<Rightarrow> Some (Inl e)
      | Inr (t7, r7) \<Rightarrow> Some (Inr (WhileNode cond body, r7))))))))))"
| "statements_until n stop stmts ts =
     (case ts of
        [] \<Rightarrow> Some (Inl NativeIndexError)
      | tok # rest \<Rightarrow>
          if ttype tok = stop then Some (Inr (stmts, ts))
          else (case statement n ts of
                  None \<Rightarrow> None
                | Some (Inl e) \<Rightarrow> Some (Inl e)
                | Some (Inr (s, ts')) \<Rightarrow>
                    (case n of
                       0 \<Rightarrow> None
                     | Suc m \<Rightarrow> statements_until m stop (stmts @ [s]) ts')))"
  by pat_completeness auto
termination
  by (relation "measures
        [\<lambda>x. case x of
            Inl (Inl (n, ts)) \<Rightarrow> n
          | Inl (Inr (n, ts)) \<Rightarrow> n
          | Inr (Inl (n, ts)) \<Rightarrow> n
          | Inr (Inr (n, stop, stmts, ts)) \<Rightarrow> n,
         \<lambda>x. case x of
            Inl (Inl (n, ts)) \<Rightarrow> 1
          | Inl (Inr (n, ts)) \<Rightarrow> 0
          | Inr (Inl (n, ts)) \<Rightarrow> 0
          | Inr (Inr (n, stop, stmts, ts)) \<Rightarrow> 2]")
     auto

text \<open>\<open>Parser.parse\<close>. A rule never needs more fuel than there are tokens left.\<close>

definition parse :: "token list \<Rightarrow> (error + node) option" where
  "parse ts =
     (case statements_until (length ts) EOF [] ts of
        None \<Rightarrow> None
      | Some (Inl e) \<Rightarrow> Some (Inl e)
      | Some (Inr (stmts, rest)) \<Rightarrow> Some (Inr (BlockNode stmts)))"

section \<open>Interpreter\<close>

record interp =
  env :: "string \<rightharpoonup> val"
  output_log :: "val list"

definition Interpreter :: interp where
  "Interpreter = \<lparr>env = Map.empty, output_log = []\<rparr>"

text \<open>The conversions that Python's arithmetic makes between its number types. \<open>to_real\<close>
  is only applied to an \<open>int\<close> or a \<open>float\<close>, \<open>to_complex\<close> to a number.\<close>

fun to_real :: "val \<Rightarrow> real" where
  "to_real (VInt i) = of_int i"
| "to_real (VFloat f) = f"
| "to_real (VComplex z) = Re z"
| "to_real VNone = 0"

fun to_complex :: "val \<Rightarrow> complex" where
  "to_complex (VInt i) = of_int i"
| "to_complex (VFloat f) = of_real f"
| "to_complex (VComplex z) = z"
| "to_complex VNone = 0"

fun is_zero :: "val \<Rightarrow> bool" where
  "is_zero (VInt i) = (i = 0)"
| "is_zero (VFloat f) = (f = 0)"
| "is_zero (VComplex z) = (z = 0)"
| "is_zero VNone = False"

fun truthy :: "val \<Rightarrow> bool" where
  "truthy (VInt i) = (i \<noteq> 0)"
| "truthy (VFloat f) = (f \<noteq> 0)"
| "truthy (VComplex z) = (z \<noteq> 0)"
| "truthy VNone = False"

definition of_bool_val :: "bool \<Rightarrow> val" where
  "of_bool_val b = VInt (if b then 1 else 0)"

text \<open>Python's operators on these values. Two integers give an integer, a complex operand
  gives a complex, any other pair of numbers a float; \<open>None\<close> is a TypeError.\<close>

fun py_add :: "val \<Rightarrow> val \<Rightarrow> error + val" where
  "py_add VNone b = Inl NativeTypeError"
| "py_add a VNone = Inl NativeTypeError"
| "py_add (VInt a) (VInt b) = Inr (VInt (a + b))"
| "py_add (VComplex a) b = Inr (VComplex (a + to_complex b))"
| "py_add a (VComplex b) = Inr (VComplex (to_complex a + b))"
| "py_add a b = Inr (VFloat (to_real a + to_real b))"

fun py_sub :: "val \<Rightarrow> val \<Rightarrow> error + val" where
  "py_sub VNone b = Inl NativeTypeError"
| "py_sub a VNone = Inl NativeTypeError"
| "py_sub (VInt a) (VInt b) = Inr (VInt (a - b))"
| "py_sub (VComplex a) b = Inr (VComplex (a - to_complex b))"
| "py_sub a (VComplex b) = Inr (VComplex (to_complex a - b))"
| "py_sub a b = Inr (VFloat (to_real a - to_real b))"

fun py_mul :: "val \<Rightarrow> val \<Rightarrow> error + val" where
  "py_mul VNone b = Inl NativeTypeError"
| "py_mul a VNone = Inl NativeTypeError"
| "py_mul (VInt a) (VInt b) = Inr (VInt (a * b))"
| "py_mul (VComplex a) b = Inr (VComplex (a * to_complex b))"
| "py_mul a (VComplex b) = Inr (VComplex (to_complex a * b))"
| "py_mul a b = Inr (VFloat (to_real a * to_real b))"

fun py_truediv :: "val \<Rightarrow> val \<Rightarrow> error + val" where
  "py_truediv VNone b = Inl NativeTypeError"
| "py_truediv a VNone = Inl NativeTypeError"
| "py_truediv (VComplex a) b =
     (if is_zero b then Inl NativeZeroDivision else Inr (VComplex (a / to_complex b)))"
| "py_truediv a (VComplex b) =
     (if b = 0 then Inl NativeZeroDivision else Inr (VComplex (to_complex a / b)))"
| "py_truediv a b =
     (if is_zero b then Inl NativeZeroDivision else Inr (VFloat (to_real a / to_real b)))"

text \<open>\<open>%\<close> is not defined on a complex number: a TypeError, also when the right operand
  is zero.\<close>

fun py_mod :: "val \<Rightarrow> val \<Rightarrow> error + val" where
  "py_mod VNone b = Inl NativeTypeError"
| "py_mod a VNone = Inl NativeTypeError"
| "py_mod (VComplex a) b = Inl NativeTypeError"
| "py_mod a (VComplex b) = Inl NativeTypeError"
| "py_mod (VInt a) (VInt b) = (if b = 0 then Inl NativeZeroDivision else Inr (VInt (a mod b)))"
| "py_mod a b =
     (if is_zero b then Inl NativeZeroDivision
      else Inr (VFloat (to_real a - to_real b * of_int \<lfloor>to_real a / to_real b\<rfloor>)))"

text \<open>The complex power: 1 for the exponent zero; for the base zero an error when the
  exponent is negative or not real, else zero; otherwise the exponential of the exponent
  times the logarithm of the base.\<close>

definition complex_pow :: "complex \<Rightarrow> complex \<Rightarrow> error + val" where
  "complex_pow z w =
     (if w = 0 then Inr (VComplex 1)
      else if z = 0
      then (if Re w < 0 \<or> Im w \<noteq> 0 then Inl NativeZeroDivision else Inr (VComplex 0))
      else Inr (VComplex (exp (w * Complex (ln (cmod z)) (Arg z)))))"

text \<open>\<open>**\<close>: an integer for two integers with an exponent that is not negative; a complex
  for a complex operand, and for a negative base with an exponent that is no whole
  number; else a float.\<close>

fun py_pow :: "val \<Rightarrow> val \<Rightarrow> error + val" where
  "py_pow VNone b = Inl NativeTypeError"
| "py_pow a VNone = Inl NativeTypeError"
| "py_pow (VInt a) (VInt b) =
     (if 0 \<le> b then Inr (VInt (a ^ nat b))
      else if a = 0 then Inl NativeZeroDivision
      else Inr (VFloat (of_int a powi b)))"
| "py_pow (VComplex a) b = complex_pow a (to_complex b)"
| "py_pow a (VComplex b) = complex_pow (to_complex a) b"
| "py_pow a b =
     (let x = to_real a; y = to_real b
      in if x = 0 \<and> y < 0 then Inl NativeZeroDivision
         else if of_int \<lfloor>y\<rfloor> = y then Inr (VFloat (x powi \<lfloor>y\<rfloor>))
         else if x < 0 then complex_pow (of_real x) (of_real y)
         else Inr (VFloat (x powr y)))"

fun py_eq :: "val \<Rightarrow> val \<Rightarrow> bool" where
  "py_eq VNone VNone = True"
| "py_eq VNone b = False"
| "py_eq a VNone = False"
| "py_eq (VComplex a) b = (a = to_complex b)"
| "py_eq a (VComplex b) = (to_complex a = b)"
| "py_eq a b = (to_real a = to_real b)"

text \<open>The order is not defined on a complex number.\<close>

fun py_lt :: "val \<Rightarrow> val \<Rightarrow> error + bool" where
  "py_lt VNone b = Inl NativeTypeError"
| "py_lt a VNone = Inl NativeTypeError"
| "py_lt (VComplex a) b = Inl NativeTypeError"
| "py_lt a (VComplex b) = Inl NativeTypeError"
| "py_lt a b = Inr (to_real a < to_real b)"

fun py_le :: "val \<Rightarrow> val \<Rightarrow> error + bool" where
  "py_le VNone b = Inl NativeTypeError"
| "py_le a VNone = Inl NativeTypeError"
| "py_le (VComplex a) b = Inl NativeTypeError"
| "py_le a (VComplex b) = Inl NativeTypeError"
| "py_le a b = Inr (to_real a \<le> to_real b)"

fun py_neg :: "val \<Rightarrow> error + val" where
  "py_neg (VInt i) = Inr (VInt (- i))"
| "py_neg (VFloat f) = Inr (VFloat (- f))"
| "py_neg (VComplex z) = Inr (VComplex (- z))"
| "py_neg VNone = Inl NativeTypeError"

definition py_int :: "error + bool \<Rightarrow> error + val" where
  "py_int r = (case r of Inl e \<Rightarrow> Inl e | Inr b \<Rightarrow> Inr (of_bool_val b))"

text \<open>The \<open>ops\<close> dictionary of the \<open>BinOpNode\<close> branch.\<close>

definition ops :: "string \<rightharpoonup> (val \<Rightarrow> val \<Rightarrow> error + val)" where
  "ops = map_of
     [(''+'', py_add),
      (''-'', py_sub),
      (''*'', py_mul),
      (''/'', \<lambda>a b. if \<not> py_eq b (VInt 0) then py_truediv a b else Inl DivisionByZero),
      (''%'', py_mod),
      (''**'', py_pow),
      (''=='', \<lambda>a b. Inr (of_bool_val (py_eq a b))),
      (''!='', \<lambda>a b. Inr (of_bool_val (\<not> py_eq a b))),
      (''<'', \<lambda>a b. py_int (py_lt a b)),
      (''>'', \<lambda>a b. py_int (py_lt b a)),
      (''<='', \<lambda>a b. py_int (py_le a b)),
      (''>='', \<lambda>a b. py_int (py_le b a))]"

text \<open>\<open>int(val) if isinstance(val, float) and val.is_integer() else val\<close>\<close>

fun display :: "val \<Rightarrow> val" where
  "display (VFloat f) =
     (if of_int \<lfloor>f\<rfloor> = f then VInt (if f < 0 then \<lceil>f\<rceil> else \<lfloor>f\<rfloor>) else VFloat f)"
| "display v = v"

definition discard :: "(error + val) \<times> interp \<Rightarrow> (error + val) \<times> interp" where
  "discard r = (case r of (Inl e, st) \<Rightarrow> (Inl e, st) | (Inr v, st) \<Rightarrow> (Inr VNone, st))"

function eval :: "node \<Rightarrow> interp \<Rightarrow> (error + val) \<times> interp"
  and eval_stmts :: "node list \<Rightarrow> val \<Rightarrow> interp \<Rightarrow> (error + val) \<times> interp"
  and while_loop :: "node \<Rightarrow> node list \<Rightarrow> nat \<Rightarrow> interp \<Rightarrow> (error + val) \<times> interp"
where
  "eval (BlockNode statements) st = eval_stmts statements VNone st"
| "eval (NumberNode v) st = (Inr v, st)"
| "eval (VarNode name) st =
     (case env st name of
        None \<Rightarrow> (Inl (UndefinedVariable name), st)
      | Some v \<Rightarrow> (Inr v, st))"
| "eval (AssignNode name e) st =
     (case eval e st of
        (Inl err, st1) \<Rightarrow> (Inl err, st1)
      | (Inr v, st1) \<Rightarrow> (Inr v, st1\<lparr>env := (env st1)(name \<mapsto> v)\<rparr>))"
| "eval (BinOpNode left op right) st =
     (case eval left st of
        (Inl err, st1) \<Rightarrow> (Inl err, st1)
      | (Inr l, st1) \<Rightarrow>
          (case eval right st1 of
             (Inl err, st2) \<Rightarrow> (Inl err, st2)
           | (Inr r, st2) \<Rightarrow>
               (case ops op of
                  None \<Rightarrow> (Inl (NativeKeyError op), st2)
                | Some f \<Rightarrow> (f l r, st2))))"
| "eval (UnaryNode op operand) st =
     (case eval operand st of
        (Inl err, st1) \<Rightarrow> (Inl err, st1)
      | (Inr v, st1) \<Rightarrow> (if op = ''-'' then py_neg v else Inr v, st1))"
| "eval (PrintNode e) st =
     (case eval e st of
        (Inl err, st1) \<Rightarrow> (Inl err, st1)
      | (Inr v, st1) \<Rightarrow>
          (let result = display v
           in (Inr result, st1\<lparr>output_log := output_log st1 @ [result]\<rparr>)))"
| "eval (IfNode condition then_body else_body) st =
     (case eval condition st of
        (Inl err, st1) \<Rightarrow> (Inl err, st1)
      | (Inr c, st1) \<Rightarrow>
          if truthy c then discard (eval_stmts then_body VNone st1)
          else (case else_body of
                  None \<Rightarrow> (Inr VNone, st1)
                | Some body \<Rightarrow>
                    if body \<noteq> [] then discard (eval_stmts body VNone st1)
                    else (Inr VNone, st1)))"
| "eval (WhileNode condition body) st = while_loop condition body 0 st"
| "eval_stmts [] result st = (Inr result, st)"
| "eval_stmts (stmt # stmts) result st =
     (case eval stmt st of
        (Inl err, st1) \<Rightarrow> (Inl err, st1)
      | (Inr v, st1) \<Rightarrow> eval_stmts stmts v st1)"
| "while_loop condition body iterations st =
     (case eval condition st of
        (Inl err, st1) \<Rightarrow> (Inl err, st1)
      | (Inr c, st1) \<Rightarrow>
          if truthy c
          then (if iterations + 1 > 10000 then (Inl InfiniteLoop, st1)
                else (case eval_stmts body VNone st1 of
                        (Inl err, st2) \<Rightarrow> (Inl err, st2)
                      | (Inr v, st2) \<Rightarrow> while_loop condition body (iterations + 1) st2))
          else (Inr VNone, st1))"
  by pat_completeness auto
termination
  by (relation "measures
        [\<lambda>x. case x of
            Inl (n, st) \<Rightarrow> 2 * size n
          | Inr (Inl (stmts, result, st)) \<Rightarrow> 2 * size_list size stmts
          | Inr (Inr (c, b, iterations, st)) \<Rightarrow> 2 * (size c + size_list size b) + 1,
         \<lambda>x. case x of
            Inr (Inr (c, b, iterations, st)) \<Rightarrow> 10001 - iterations
          | _ \<Rightarrow> 0]")
     auto

text \<open>
  \<open>run\<close>: the three stages, and the \<open>except\<close> clause. A caught exception is reported and the
  interpreter returned as it stands; any other exception leaves \<open>run\<close>.
\<close>

definition caught :: "error \<Rightarrow> bool" where
  "caught e = (class_of e \<in> {SyntaxError, NameError, ZeroDivisionError, RuntimeError})"

definition handle :: "error \<Rightarrow> interp \<Rightarrow> error + interp" where
  "handle e interpreter = (if caught e then Inr interpreter else Inl e)"

definition run :: "string \<Rightarrow> interp \<Rightarrow> (error + interp) option" where
  "run source interpreter =
     (case tokenize source of
        Inl e \<Rightarrow> Some (handle e interpreter)
      | Inr tokens \<Rightarrow>
          (case parse tokens of
             None \<Rightarrow> None
           | Some (Inl e) \<Rightarrow> Some (handle e interpreter)
           | Some (Inr ast) \<Rightarrow>
               (case eval ast interpreter of
                  (Inl e, interpreter') \<Rightarrow> Some (handle e interpreter')
                | (Inr v, interpreter') \<Rightarrow> Some (Inr interpreter'))))"

section \<open>Notions used in the properties\<close>

text \<open>The first two stages of \<open>run\<close>, as \<open>show_ast\<close> composes them.\<close>

definition ast_of :: "string \<Rightarrow> (error + node) option" where
  "ast_of source = (case tokenize source of Inl e \<Rightarrow> Some (Inl e) | Inr tokens \<Rightarrow> parse tokens)"

text \<open>\<open>ok c b res\<close>: the result \<open>res\<close> of a parsing method is there when \<open>c\<close> holds, and
  the tokens it leaves are fewer than \<open>b\<close>.\<close>

definition ok :: "bool \<Rightarrow> nat \<Rightarrow> 'a parsed \<Rightarrow> bool" where
  "ok c b res =
     ((c \<longrightarrow> res \<noteq> None) \<and> (\<forall>x rest. res = Some (Inr (x, rest)) \<longrightarrow> length rest < b))"

text \<open>\<open>precedes a b ps\<close>: the first rule of kind \<open>a\<close> stands before the first rule of kind
  \<open>b\<close> in the list of rules.\<close>

definition precedes :: "ttype \<Rightarrow> ttype \<Rightarrow> (pattern \<times> ttype) list \<Rightarrow> bool" where
  "precedes a b ps =
     (b \<in> set (map snd ps) \<and> a \<in> set (takeWhile (\<lambda>t. t \<noteq> b) (map snd ps)))"

text \<open>\<open>rounds condition body k st\<close>: the interpreter after \<open>k\<close> passes of the loop from
  \<open>st\<close>, each one an evaluation of the condition that gives a true value and then the
  whole body; \<open>None\<close> when one of these passes does not take place.\<close>

fun rounds :: "node \<Rightarrow> node list \<Rightarrow> nat \<Rightarrow> interp \<Rightarrow> interp option" where
  "rounds c b 0 st = Some st"
| "rounds c b (Suc k) st =
     (case rounds c b k st of
        None \<Rightarrow> None
      | Some stk \<Rightarrow>
          (case eval c stk of
             (Inl e, st1) \<Rightarrow> None
           | (Inr v, st1) \<Rightarrow>
               if truthy v
               then (case eval_stmts b VNone st1 of
                       (Inl e, st2) \<Rightarrow> None
                     | (Inr r, st2) \<Rightarrow> Some st2)
               else None))"

text \<open>\<open>extends st st'\<close>: the output log of \<open>st\<close> is the beginning of that of \<open>st'\<close>, and every
  name bound in \<open>st\<close> is bound in \<open>st'\<close>.\<close>

definition extends :: "interp \<Rightarrow> interp \<Rightarrow> bool" where
  "extends st st' = (prefix (output_log st) (output_log st') \<and> dom (env st) \<subseteq> dom (env st'))"

text \<open>\<open>assigned n\<close>: the names that the assignments inside the node \<open>n\<close> bind.\<close>

fun assigned :: "node \<Rightarrow> string set" where
  "assigned (NumberNode v) = {}"
| "assigned (VarNode name) = {}"
| "assigned (BinOpNode left op right) = assigned left \<union> assigned right"
| "assigned (UnaryNode op operand) = assigned operand"
| "assigned (AssignNode name e) = insert name (assigned e)"
| "assigned (PrintNode e) = assigned e"
| "assigned (IfNode condition then_body else_body) =
     assigned condition \<union> (\<Union>s \<in> set then_body. assigned s)
       \<union> (case else_body of None \<Rightarrow> {} | Some body \<Rightarrow> (\<Union>s \<in> set body. assigned s))"
| "assigned (WhileNode condition body) = assigned condition \<union> (\<Union>s \<in> set body. assigned s)"
| "assigned (BlockNode statements) = (\<Union>s \<in> set statements. assigned s)"

section \<open>Properties\<close>

text \<open>The equations of the parsing methods and of the loop unfold without end; they are
  used where needed.\<close>

declare expression.simps [simp del] comparison.simps [simp del] comparison_loop.simps [simp del]
  additive.simps [simp del] additive_loop.simps [simp del] multiplicative.simps [simp del]
  multiplicative_loop.simps [simp del] power.simps [simp del] unary.simps [simp del]
  primary.simps [simp del] statement.simps [simp del] if_stmt.simps [simp del]
  while_stmt.simps [simp del] statements_until.simps [simp del] while_loop.simps [simp del]

lemma run_ast_of:
  "ast_of source = Some (Inr ast) \<Longrightarrow>
   run source st = (case eval ast st of
                      (Inl e, st') \<Rightarrow> Some (handle e st')
                    | (Inr v, st') \<Rightarrow> Some (Inr st'))"
  by (auto simp: ast_of_def run_def split: sum.splits option.splits)

lemma run_ast_of_error:
  "ast_of source = Some (Inl e) \<Longrightarrow> run source st = Some (handle e st)"
  by (auto simp: ast_of_def run_def split: sum.splits option.splits)

subsection \<open>The parser's bound\<close>

text \<open>
  Every method returns when its bound is at least the number of tokens it is given, and
  every rule of the grammar reads a token; so \<open>parse\<close>, whose bound is the number of
  tokens, always returns, and so does \<open>run\<close>.
\<close>

lemma ok_err: "ok c b (Some (Inl e))"
  by (simp add: ok_def)

lemma ok_ret: "length rest < b \<Longrightarrow> ok c b (Some (Inr (x, rest)))"
  by (simp add: ok_def)

lemma ok_none: "\<not> c \<Longrightarrow> ok c b None"
  by (simp add: ok_def)

lemma ok_weaken: "ok c' b' res \<Longrightarrow> (c \<Longrightarrow> c') \<Longrightarrow> b' \<le> b \<Longrightarrow> ok c b res"
  by (auto simp: ok_def)

lemma ok_bind:
  assumes "ok c' b' F" and "c \<Longrightarrow> c'"
    and "\<And>x r. F = Some (Inr (x, r)) \<Longrightarrow> length r < b' \<Longrightarrow> ok c b (G x r)"
  shows "ok c b (case F of None \<Rightarrow> None | Some (Inl e) \<Rightarrow> Some (Inl e)
                 | Some (Inr (x, r)) \<Rightarrow> G x r)"
proof (cases F)
  case None
  with assms(1,2) show ?thesis by (auto simp: ok_def)
next
  case (Some a)
  show ?thesis
  proof (cases a)
    case (Inl e)
    with Some show ?thesis by (simp add: ok_def)
  next
    case (Inr p)
    obtain x r where p: "p = (x, r)" by (cases p)
    from assms(1) Some Inr p have "length r < b'" by (simp add: ok_def)
    from assms(3)[OF _ this] Some Inr p show ?thesis by simp
  qed
qed

lemma ok_eat:
  assumes "\<And>t r. eat ty ts = Inr (t, r) \<Longrightarrow> length r < length ts \<Longrightarrow> ok c b (G t r)"
  shows "ok c b (case eat ty ts of Inl e \<Rightarrow> Some (Inl e) | Inr (t, r) \<Rightarrow> G t r)"
proof (cases "eat ty ts")
  case (Inl e)
  then show ?thesis by (simp add: ok_def)
next
  case (Inr p)
  obtain t r where p: "p = (t, r)" by (cases p)
  from Inr p have "length r < length ts"
    by (auto simp: eat_def split: list.splits if_splits)
  from assms[OF _ this] Inr p show ?thesis by simp
qed

lemma ok_semicolon:
  assumes "\<And>r. optional_semicolon ts = Inr r \<Longrightarrow> length r \<le> length ts \<Longrightarrow> ok c b (G r)"
  shows "ok c b (case optional_semicolon ts of Inl e \<Rightarrow> Some (Inl e) | Inr r \<Rightarrow> G r)"
proof (cases "optional_semicolon ts")
  case (Inl e)
  then show ?thesis by (simp add: ok_def)
next
  case (Inr r)
  then have "length r \<le> length ts"
    by (auto simp: optional_semicolon_def split: list.splits if_splits)
  from assms[OF Inr this] Inr show ?thesis by simp
qed

lemma expression_enough:
  "ok (length ts \<le> n) (length ts) (expression n ts)"
  "ok (length ts \<le> n) (length ts) (comparison n ts)"
  "ok (length ts \<le> n) (Suc (length ts)) (comparison_loop n left ts)"
  "ok (length ts \<le> n) (length ts) (additive n ts)"
  "ok (length ts \<le> n) (Suc (length ts)) (additive_loop n left ts)"
  "ok (length ts \<le> n) (length ts) (multiplicative n ts)"
  "ok (length ts \<le> n) (Suc (length ts)) (multiplicative_loop n left ts)"
  "ok (length ts \<le> n) (length ts) (power n ts)"
  "ok (length ts \<le> n) (length ts) (unary n ts)"
  "ok (length ts \<le> n) (length ts) (primary n ts)"
proof (induction n ts and n ts and n left ts and n ts and n left ts and n ts and n left ts
         and n ts and n ts and n ts
       rule: expression_comparison_comparison_loop_additive_additive_loop_multiplicative_multiplicative_loop_power_unary_primary.induct)
  case (1 n ts)
  then show ?case by (simp add: expression.simps)
next
  case (2 n ts)
  show ?case
    apply (subst comparison.simps)
    apply (rule ok_bind[OF "2.IH"(1)])
     apply assumption
    apply (rule ok_weaken[OF "2.IH"(2)[OF _ refl refl]])
      apply simp_all
    done
next
  case (3 n left ts)
  show ?case
  proof (cases ts)
    case Nil
    then show ?thesis by (subst comparison_loop.simps) (simp add: ok_def)
  next
    case (Cons tok rest)
    show ?thesis
    proof (cases "comparison_ops (ttype tok)")
      case None
      with Cons show ?thesis by (subst comparison_loop.simps) (simp add: ok_def)
    next
      case (Some op)
      show ?thesis
      proof (cases n)
        case 0
        with Cons Some show ?thesis by (subst comparison_loop.simps) (simp add: ok_def)
      next
        case (Suc m)
        have "ok (length ts \<le> n) (Suc (length ts))
            (case additive m rest of None \<Rightarrow> None | Some (Inl e) \<Rightarrow> Some (Inl e)
             | Some (Inr (right, rest')) \<Rightarrow> comparison_loop m (BinOpNode left op right) rest')"
          apply (rule ok_bind[OF "3.IH"(1)[OF Cons Some Suc]])
           apply (simp add: Cons Suc)
          apply (rule ok_weaken[OF "3.IH"(2)[OF Cons Some Suc _ refl refl]])
            apply (simp_all add: Cons Suc)
          done
        with Cons Some Suc show ?thesis by (subst comparison_loop.simps) simp
      qed
    qed
  qed
next
  case (4 n ts)
  show ?case
    apply (subst additive.simps)
    apply (rule ok_bind[OF "4.IH"(1)])
     apply assumption
    apply (rule ok_weaken[OF "4.IH"(2)[OF _ refl refl]])
      apply simp_all
    done
next
  case (5 n left ts)
  show ?case
  proof (cases ts)
    case Nil
    then show ?thesis by (subst additive_loop.simps) (simp add: ok_def)
  next
    case (Cons tok rest)
    show ?thesis
    proof (cases "ttype tok = PLUS \<or> ttype tok = MINUS")
      case False
      with Cons show ?thesis by (subst additive_loop.simps) (simp add: ok_def)
    next
      case True
      show ?thesis
      proof (cases n)
        case 0
        with Cons True show ?thesis by (subst additive_loop.simps) (simp add: ok_def)
      next
        case (Suc m)
        have "ok (length ts \<le> n) (Suc (length ts))
            (case multiplicative m rest of None \<Rightarrow> None | Some (Inl e) \<Rightarrow> Some (Inl e)
             | Some (Inr (right, rest')) \<Rightarrow>
                 additive_loop m (BinOpNode left (the_txt (tvalue tok)) right) rest')"
          apply (rule ok_bind[OF "5.IH"(1)[OF Cons True Suc]])
           apply (simp add: Cons Suc)
          apply (rule ok_weaken[OF "5.IH"(2)[OF Cons True Suc _ refl refl]])
            apply (simp_all add: Cons Suc)
          done
        with Cons True Suc show ?thesis by (subst additive_loop.simps) simp
      qed
    qed
  qed
next
  case (6 n ts)
  show ?case
    apply (subst multiplicative.simps)
    apply (rule ok_bind[OF "6.IH"(1)])
     apply assumption
    apply (rule ok_weaken[OF "6.IH"(2)[OF _ refl refl]])
      apply simp_all
    done
next
  case (7 n left ts)
  show ?case
  proof (cases ts)
    case Nil
    then show ?thesis by (subst multiplicative_loop.simps) (simp add: ok_def)
  next
    case (Cons tok rest)
    show ?thesis
    proof (cases "ttype tok = MUL \<or> ttype tok = DIV \<or> ttype tok = MOD")
      case False
      with Cons show ?thesis by (subst multiplicative_loop.simps) (simp add: ok_def)
    next
      case True
      show ?thesis
      proof (cases n)
        case 0
        with Cons True show ?thesis by (subst multiplicative_loop.simps) (simp add: ok_def)
      next
        case (Suc m)
        have "ok (length ts \<le> n) (Suc (length ts))
            (case power m rest of None \<Rightarrow> None | Some (Inl e) \<Rightarrow> Some (Inl e)
             | Some (Inr (right, rest')) \<Rightarrow>
                 multiplicative_loop m (BinOpNode left (the_txt (tvalue tok)) right) rest')"
          apply (rule ok_bind[OF "7.IH"(1)[OF Cons True Suc]])
           apply (simp add: Cons Suc)
          apply (rule ok_weaken[OF "7.IH"(2)[OF Cons True Suc _ refl refl]])
            apply (simp_all add: Cons Suc)
          done
        with Cons True Suc show ?thesis by (subst multiplicative_loop.simps) simp
      qed
    qed
  qed
next
  case (8 n ts)
  show ?case
  proof (subst power.simps, rule ok_bind[OF "8.IH"(1)], assumption)
    fix base rest
    assume u: "unary n ts = Some (Inr (base, rest))" and l: "length rest < length ts"
    show "ok (length ts \<le> n) (length ts)
        (case rest of
           [] \<Rightarrow> Some (Inl NativeIndexError)
         | tok # rest' \<Rightarrow>
             if ttype tok = POW
             then (case n of
                     0 \<Rightarrow> None
                   | Suc m \<Rightarrow>
                       (case power m rest' of
                          None \<Rightarrow> None
                        | Some (Inl e) \<Rightarrow> Some (Inl e)
                        | Some (Inr (expo, rest'')) \<Rightarrow>
                            Some (Inr (BinOpNode base ''**'' expo, rest''))))
             else Some (Inr (base, rest)))"
    proof (cases rest)
      case Nil
      then show ?thesis by (simp add: ok_def)
    next
      case (Cons tok rest')
      show ?thesis
      proof (cases "ttype tok = POW")
        case False
        with Cons l show ?thesis by (simp add: ok_def)
      next
        case True
        show ?thesis
        proof (cases n)
          case 0
          with Cons True l show ?thesis by (auto simp: ok_def)
        next
          case (Suc m)
          have "ok (length ts \<le> n) (length ts)
              (case power m rest' of None \<Rightarrow> None | Some (Inl e) \<Rightarrow> Some (Inl e)
               | Some (Inr (expo, rest'')) \<Rightarrow> Some (Inr (BinOpNode base ''**'' expo, rest'')))"
            apply (rule ok_bind[OF "8.IH"(2)[OF u refl refl Cons True Suc]])
            using l Cons Suc apply simp
            apply (rule ok_ret)
            using l Cons apply simp
            done
          with Cons True Suc show ?thesis by simp
        qed
      qed
    qed
  qed
next
  case (9 n ts)
  show ?case
  proof (cases ts)
    case Nil
    then show ?thesis by (subst unary.simps) (simp add: ok_def)
  next
    case (Cons tok rest)
    show ?thesis
    proof (cases "ttype tok = MINUS")
      case True
      have "ok (length ts \<le> n) (length ts)
          (case primary n rest of None \<Rightarrow> None | Some (Inl e) \<Rightarrow> Some (Inl e)
           | Some (Inr (operand, rest')) \<Rightarrow> Some (Inr (UnaryNode ''-'' operand, rest')))"
        apply (rule ok_bind[OF "9.IH"(1)[OF Cons True]])
         apply (simp add: Cons)
        apply (rule ok_ret)
        apply (simp add: Cons)
        done
      with Cons True show ?thesis by (subst unary.simps) simp
    next
      case False
      from "9.IH"(2)[OF Cons False] Cons False show ?thesis
        by (subst unary.simps) simp
    qed
  qed
next
  case (10 n ts)
  show ?case
  proof (cases ts)
    case Nil
    then show ?thesis by (subst primary.simps) (simp add: ok_def)
  next
    case (Cons tok rest)
    show ?thesis
    proof (cases "ttype tok = LPAREN")
      case False
      with Cons show ?thesis by (subst primary.simps) (simp add: ok_def)
    next
      case True
      show ?thesis
      proof (cases n)
        case 0
        with Cons True show ?thesis by (subst primary.simps) (simp add: ok_def)
      next
        case (Suc m)
        have np: "ttype tok \<noteq> NUMBER" "ttype tok \<noteq> IDENT" using True by simp_all
        have "ok (length ts \<le> n) (length ts)
            (case expression m rest of None \<Rightarrow> None | Some (Inl e) \<Rightarrow> Some (Inl e)
             | Some (Inr (expr, rest')) \<Rightarrow>
                 (case eat RPAREN rest' of Inl e \<Rightarrow> Some (Inl e)
                  | Inr (tok', rest'') \<Rightarrow> Some (Inr (expr, rest''))))"
          apply (rule ok_bind[OF "10.IH"[OF Cons np True Suc]])
           apply (simp add: Cons Suc)
          apply (rule ok_eat)
          apply (rule ok_ret)
          apply (simp add: Cons)
          done
        with Cons True Suc show ?thesis by (subst primary.simps) simp
      qed
    qed
  qed
qed



lemma ok_fuel:
  assumes "n = 0 \<Longrightarrow> \<not> c" and "\<And>m. n = Suc m \<Longrightarrow> ok c b (G m)"
  shows "ok c b (case n of 0 \<Rightarrow> None | Suc m \<Rightarrow> G m)"
  using assms by (cases n) (auto simp: ok_def)

lemma ok_list:
  assumes "ok c b E" and "\<And>tok rest. ts = tok # rest \<Longrightarrow> ok c b (G tok rest)"
  shows "ok c b (case ts of [] \<Rightarrow> E | tok # rest \<Rightarrow> G tok rest)"
  using assms by (cases ts) auto

lemma ok_if: "(C \<Longrightarrow> ok c b X) \<Longrightarrow> (\<not> C \<Longrightarrow> ok c b Y) \<Longrightarrow> ok c b (if C then X else Y)"
  by simp

lemma if_stmt_enough:
  assumes IH: "\<And>m stop stmts ts. m < n \<Longrightarrow>
      ok (length ts \<le> m) (Suc (length ts)) (statements_until m stop stmts ts)"
  shows "ok (length ts \<le> n) (length ts) (if_stmt n ts)"
  apply (subst if_stmt.simps)
  apply (intro ok_eat ok_list ok_if ok_err ok_ret ok_fuel
      ok_bind[OF expression_enough(1)] ok_bind[OF IH])
  apply auto
  done

lemma while_stmt_enough:
  assumes IH: "\<And>m stop stmts ts. m < n \<Longrightarrow>
      ok (length ts \<le> m) (Suc (length ts)) (statements_until m stop stmts ts)"
  shows "ok (length ts \<le> n) (length ts) (while_stmt n ts)"
  apply (subst while_stmt.simps)
  apply (intro ok_eat ok_list ok_if ok_err ok_ret ok_fuel
      ok_bind[OF expression_enough(1)] ok_bind[OF IH])
  apply auto
  done

lemma statement_enough:
  assumes IH: "\<And>m stop stmts ts. m < n \<Longrightarrow>
      ok (length ts \<le> m) (Suc (length ts)) (statements_until m stop stmts ts)"
  shows "ok (length ts \<le> n) (length ts) (statement n ts)"
  apply (subst statement.simps)
  apply (intro ok_eat ok_list ok_if ok_err ok_ret ok_semicolon
      ok_bind[OF expression_enough(1)] if_stmt_enough while_stmt_enough IH)
  apply auto
  done

lemma statements_until_enough:
  "ok (length ts \<le> n) (Suc (length ts)) (statements_until n stop stmts ts)"
proof (induction n arbitrary: stop stmts ts rule: less_induct)
  case (less n)
  show ?case
    apply (subst statements_until.simps)
    apply (intro ok_list ok_if ok_err ok_ret ok_fuel ok_bind[OF statement_enough]
        ok_weaken[OF less.IH] less.IH)
    apply auto
    done
qed

lemma parse_total: "parse ts \<noteq> None"
  using statements_until_enough[of ts "length ts" EOF "[]"]
  by (auto simp: parse_def ok_def split: option.splits sum.splits)

lemma run_total: "run source st \<noteq> None"
proof (cases "tokenize source")
  case (Inl e)
  then show ?thesis by (simp add: run_def)
next
  case (Inr tokens)
  with parse_total[of tokens] show ?thesis
    by (cases "parse tokens") (auto simp: run_def split: sum.splits prod.splits)
qed

subsection \<open>Operator precedence\<close>

text \<open>
  C2. The source \<open>2 + 3 * 4\<close> parses with the product under the sum and evaluates to 14;
  \<open>(2 + 3) * 4\<close> evaluates to 20; \<open>2 ** 3 ** 2\<close> parses as \<open>2 ** (3 ** 2)\<close>, the power
  rule taking another power as its right operand, and evaluates to 512.
\<close>

theorem precedence_and_associativity:
  "ast_of ''2 + 3 * 4'' =
     Some (Inr (BlockNode [BinOpNode (NumberNode (VInt 2)) ''+''
                  (BinOpNode (NumberNode (VInt 3)) ''*'' (NumberNode (VInt 4)))]))
   \<and> eval (BlockNode [BinOpNode (NumberNode (VInt 2)) ''+''
                  (BinOpNode (NumberNode (VInt 3)) ''*'' (NumberNode (VInt 4)))]) st
       = (Inr (VInt 14), st)
   \<and> ast_of ''(2 + 3) * 4'' =
     Some (Inr (BlockNode [BinOpNode (BinOpNode (NumberNode (VInt 2)) ''+'' (NumberNode (VInt 3)))
                  ''*'' (NumberNode (VInt 4))]))
   \<and> eval (BlockNode [BinOpNode (BinOpNode (NumberNode (VInt 2)) ''+'' (NumberNode (VInt 3)))
                  ''*'' (NumberNode (VInt 4))]) st
       = (Inr (VInt 20), st)
   \<and> ast_of ''2 ** 3 ** 2'' =
     Some (Inr (BlockNode [BinOpNode (NumberNode (VInt 2)) ''**''
                  (BinOpNode (NumberNode (VInt 3)) ''**'' (NumberNode (VInt 2)))]))
   \<and> eval (BlockNode [BinOpNode (NumberNode (VInt 2)) ''**''
                  (BinOpNode (NumberNode (VInt 3)) ''**'' (NumberNode (VInt 2)))]) st
       = (Inr (VInt 512), st)"
proof -
  have a1: "ast_of ''2 + 3 * 4'' =
     Some (Inr (BlockNode [BinOpNode (NumberNode (VInt 2)) ''+''
                  (BinOpNode (NumberNode (VInt 3)) ''*'' (NumberNode (VInt 4)))]))"
    by code_simp
  have a2: "ast_of ''(2 + 3) * 4'' =
     Some (Inr (BlockNode [BinOpNode (BinOpNode (NumberNode (VInt 2)) ''+'' (NumberNode (VInt 3)))
                  ''*'' (NumberNode (VInt 4))]))"
    by code_simp
  have a3: "ast_of ''2 ** 3 ** 2'' =
     Some (Inr (BlockNode [BinOpNode (NumberNode (VInt 2)) ''**''
                  (BinOpNode (NumberNode (VInt 3)) ''**'' (NumberNode (VInt 2)))]))"
    by code_simp
  show ?thesis
    unfolding a1 a2 a3 by (simp add: ops_def)
qed

subsection \<open>Lexer\<close>

lemma first_match_two_chars:
  "first_match TOKEN_PATTERNS (''=='' @ rest) = Some (EQ, ''=='')"
  "first_match TOKEN_PATTERNS (''!='' @ rest) = Some (NEQ, ''!='')"
  "first_match TOKEN_PATTERNS (''<='' @ rest) = Some (LTE, ''<='')"
  "first_match TOKEN_PATTERNS (''>='' @ rest) = Some (GTE, ''>='')"
  "first_match TOKEN_PATTERNS (''**'' @ rest) = Some (POW, ''**'')"
  by (simp_all add: TOKEN_PATTERNS_def is_digit_def is_ident_start_def)

text \<open>
  C5. In the list of lexical rules NUMBER stands before IDENT, each of the two-character
  rules \<open>==\<close>, \<open>!=\<close>, \<open><=\<close>, \<open>>=\<close> before each of the one-character rules \<open><\<close>, \<open>>\<close>, \<open>=\<close>,
  and \<open>**\<close> before \<open>*\<close>. So a source
  that goes on with \<open>==\<close>, \<open>!=\<close>, \<open><=\<close>, \<open>>=\<close> or \<open>**\<close> gives the one two-character token,
  wherever it stands, and \<open>a==b\<close> is the tokens IDENT a, EQ, IDENT b, EOF.
\<close>

theorem lexical_priority:
  "precedes NUMBER IDENT TOKEN_PATTERNS
   \<and> list_all (\<lambda>two. list_all (\<lambda>one. precedes two one TOKEN_PATTERNS) [LT, GT, ASSIGN])
        [EQ, NEQ, LTE, GTE]
   \<and> precedes POW MUL TOKEN_PATTERNS
   \<and> tokenize_from (''=='' @ rest) lno toks
       = tokenize_from rest lno (toks @ [\<lparr>ttype = EQ, tvalue = Txt ''=='', line = lno\<rparr>])
   \<and> tokenize_from (''!='' @ rest) lno toks
       = tokenize_from rest lno (toks @ [\<lparr>ttype = NEQ, tvalue = Txt ''!='', line = lno\<rparr>])
   \<and> tokenize_from (''<='' @ rest) lno toks
       = tokenize_from rest lno (toks @ [\<lparr>ttype = LTE, tvalue = Txt ''<='', line = lno\<rparr>])
   \<and> tokenize_from (''>='' @ rest) lno toks
       = tokenize_from rest lno (toks @ [\<lparr>ttype = GTE, tvalue = Txt ''>='', line = lno\<rparr>])
   \<and> tokenize_from (''**'' @ rest) lno toks
       = tokenize_from rest lno (toks @ [\<lparr>ttype = POW, tvalue = Txt ''**'', line = lno\<rparr>])
   \<and> tokenize ''a==b'' =
        Inr [\<lparr>ttype = IDENT, tvalue = Txt ''a'', line = 1\<rparr>,
             \<lparr>ttype = EQ, tvalue = Txt ''=='', line = 1\<rparr>,
             \<lparr>ttype = IDENT, tvalue = Txt ''b'', line = 1\<rparr>,
             \<lparr>ttype = EOF, tvalue = NoValue, line = 1\<rparr>]"
proof -
  have order: "precedes NUMBER IDENT TOKEN_PATTERNS
     \<and> list_all (\<lambda>two. list_all (\<lambda>one. precedes two one TOKEN_PATTERNS) [LT, GT, ASSIGN])
          [EQ, NEQ, LTE, GTE]
     \<and> precedes POW MUL TOKEN_PATTERNS"
    by (simp add: precedes_def TOKEN_PATTERNS_def)
  have ab: "tokenize ''a==b'' =
        Inr [\<lparr>ttype = IDENT, tvalue = Txt ''a'', line = 1\<rparr>,
             \<lparr>ttype = EQ, tvalue = Txt ''=='', line = 1\<rparr>,
             \<lparr>ttype = IDENT, tvalue = Txt ''b'', line = 1\<rparr>,
             \<lparr>ttype = EOF, tvalue = NoValue, line = 1\<rparr>]"
    by code_simp
  show ?thesis
    unfolding ab using order first_match_two_chars[of rest]
    by (simp add: isspace_def make_token_def)
qed

lemma re_match_prefix: "re_match p s = Some txt \<Longrightarrow> prefix txt s"
proof (cases p)
  case ReNumber
  assume m: "re_match p s = Some txt"
  have s: "s = takeWhile is_digit s @ dropWhile is_digit s" by simp
  show ?thesis
  proof (cases "dropWhile is_digit s")
    case Nil
    with m ReNumber s show ?thesis by (auto simp: Let_def split: if_splits)
  next
    case (Cons c r')
    have r': "r' = takeWhile is_digit r' @ dropWhile is_digit r'" by simp
    from Cons s have "s = takeWhile is_digit s @ c # takeWhile is_digit r' @ dropWhile is_digit r'"
      by (metis r')
    then have "prefix (takeWhile is_digit s @ c # takeWhile is_digit r') s"
      and "prefix (takeWhile is_digit s) s"
      by (metis append.assoc append_Cons prefixI, metis s prefixI)
    with m ReNumber Cons show ?thesis by (auto simp: Let_def split: if_splits)
  qed
next
  case ReIdent
  assume "re_match p s = Some txt"
  with ReIdent show ?thesis
    by (auto simp: takeWhile_is_prefix split: list.splits if_splits)
next
  case (ReLit l)
  assume "re_match p s = Some txt"
  with ReLit show ?thesis by (auto split: if_splits)
qed

lemma re_match_no_newline:
  assumes "re_match p s = Some txt" and "\<And>l. p = ReLit l \<Longrightarrow> newline \<notin> set l"
  shows "newline \<notin> set txt"
proof (cases p)
  case ReNumber
  have d: "\<not> is_digit newline" by (simp add: is_digit_def newline_def)
  have "newline \<notin> set (takeWhile is_digit xs)" for xs
    using d by (auto dest: set_takeWhileD)
  with assms(1) ReNumber show ?thesis
    by (auto simp: Let_def newline_def split: if_splits list.splits)
next
  case ReIdent
  have d: "\<not> is_word newline" "\<not> is_ident_start newline"
    by (simp_all add: is_word_def is_digit_def is_ident_start_def newline_def)
  have "newline \<notin> set (takeWhile is_word xs)" for xs
    using d by (auto dest: set_takeWhileD)
  with assms(1) ReIdent d show ?thesis
    by (auto split: if_splits list.splits)
next
  case (ReLit l)
  with assms show ?thesis by (auto split: if_splits)
qed

lemma first_match_rule:
  "first_match ps s = Some (ty, txt) \<Longrightarrow> \<exists>p. (p, ty) \<in> set ps \<and> re_match p s = Some txt"
  by (induction ps s rule: first_match.induct) (auto split: option.splits)

lemma token_patterns_rule:
  "(p, ty) \<in> set TOKEN_PATTERNS \<Longrightarrow> ty \<noteq> EOF \<and> (\<forall>l. p = ReLit l \<longrightarrow> newline \<notin> set l)"
  by (auto simp: TOKEN_PATTERNS_def newline_def)

lemma make_token_fields:
  "ty \<noteq> EOF \<Longrightarrow> ttype (make_token ty txt lno) \<noteq> EOF"
  "line (make_token ty txt lno) = lno"
  by (auto simp: make_token_def upper_def)

lemma count_drop_match:
  assumes "prefix txt s" "newline \<notin> set txt"
  shows "count_list (drop (length txt) s) newline = count_list s newline"
proof -
  from assms(1) obtain r where "s = txt @ r" by (auto simp: prefix_def)
  moreover have "count_list txt newline = 0" using assms(2) by (simp add: count_list_0_iff)
  ultimately show ?thesis by simp
qed

lemma count_drop_comment:
  "count_list (dropWhile (\<lambda>d. d \<noteq> newline) s) newline = count_list s newline"
  by (induction s) auto

lemma tokenize_from_shape:
  "tokenize_from s lno toks = Inr out \<Longrightarrow>
   \<exists>new. out = toks @ new @ [\<lparr>ttype = EOF, tvalue = NoValue, line = lno + count_list s newline\<rparr>]
      \<and> (\<forall>t \<in> set new. ttype t \<noteq> EOF \<and> lno \<le> line t \<and> line t \<le> lno + count_list s newline)
      \<and> sorted (map line new)"
proof (induction s lno toks arbitrary: out rule: tokenize_from.induct)
  case (1 lno toks)
  then show ?case by auto
next
  case (2 c s lno toks)
  show ?case
  proof (cases "isspace c")
    case True
    let ?l = "if c = newline then lno + 1 else lno"
    from True "2.prems" have "tokenize_from s ?l toks = Inr out" by simp
    from "2.IH"(1)[OF True this] obtain new where
      n: "out = toks @ new @ [\<lparr>ttype = EOF, tvalue = NoValue, line = ?l + count_list s newline\<rparr>]"
         "\<forall>t \<in> set new. ttype t \<noteq> EOF \<and> ?l \<le> line t \<and> line t \<le> ?l + count_list s newline"
         "sorted (map line new)"
      by blast
    have "?l + count_list s newline = lno + count_list (c # s) newline" by simp
    with n show ?thesis
      by (intro exI[of _ new]) (auto split: if_splits)
  next
    case False
    show ?thesis
    proof (cases "take 2 (c # s) = ''//''")
      case True
      let ?s = "dropWhile (\<lambda>d. d \<noteq> newline) (c # s)"
      from False True "2.prems" have "tokenize_from ?s lno toks = Inr out" by simp
      from "2.IH"(2)[OF False True this] count_drop_comment[of "c # s"]
      show ?thesis by simp
    next
      case nc: False
      from False nc "2.prems" obtain ty lexeme where
        fm: "first_match TOKEN_PATTERNS (c # s) = Some (ty, lexeme)"
        and rec: "tokenize_from (drop (length lexeme) (c # s)) lno (toks @ [make_token ty lexeme lno]) = Inr out"
        by (auto split: option.splits)
      from first_match_rule[OF fm] obtain p where
        p: "(p, ty) \<in> set TOKEN_PATTERNS" "re_match p (c # s) = Some lexeme" by blast
      from token_patterns_rule[OF p(1)] have ty: "ty \<noteq> EOF"
        and lit: "\<And>l. p = ReLit l \<Longrightarrow> newline \<notin> set l" by auto
      have cnt: "count_list (drop (length lexeme) (c # s)) newline = count_list (c # s) newline"
        using count_drop_match[OF re_match_prefix[OF p(2)] re_match_no_newline[OF p(2) lit]] .
      from "2.IH"(3)[OF False nc fm refl rec] obtain new where
        n: "out = (toks @ [make_token ty lexeme lno]) @ new @
               [\<lparr>ttype = EOF, tvalue = NoValue,
                 line = lno + count_list (drop (length lexeme) (c # s)) newline\<rparr>]"
           "\<forall>t \<in> set new. ttype t \<noteq> EOF \<and> lno \<le> line t
               \<and> line t \<le> lno + count_list (drop (length lexeme) (c # s)) newline"
           "sorted (map line new)"
        by blast
      show ?thesis
        using n make_token_fields[of ty lexeme lno] ty unfolding cnt
        by (intro exI[of _ "make_token ty lexeme lno # new"]) auto
    qed
  qed
qed

text \<open>
  C6. When \<open>tokenize\<close> succeeds, the last token is the one EOF token, and its line is the
  line the lexer ends on: one more than the number of line feeds in the source. No
  token before it is an EOF, every line is at least 1, and the lines never go down
  along the sequence.
\<close>

theorem tokenize_ends_with_eof_and_lines_ascend:
  assumes "tokenize source = Inr toks"
  shows "toks \<noteq> []
     \<and> last toks = \<lparr>ttype = EOF, tvalue = NoValue, line = 1 + count_list source newline\<rparr>
     \<and> (\<forall>t \<in> set (butlast toks). ttype t \<noteq> EOF)
     \<and> (\<forall>t \<in> set toks. 1 \<le> line t)
     \<and> sorted (map line toks)"
proof -
  from assms tokenize_from_shape[of source 1 "[]" toks] obtain new where
    n: "toks = new @ [\<lparr>ttype = EOF, tvalue = NoValue, line = 1 + count_list source newline\<rparr>]"
       "\<forall>t \<in> set new. ttype t \<noteq> EOF \<and> 1 \<le> line t \<and> line t \<le> 1 + count_list source newline"
       "sorted (map line new)"
    by (auto simp: tokenize_def)
  then show ?thesis by (auto simp: sorted_append)
qed

theorem tokenize_ends_with_eof_and_lines_ascend_witness:
  "\<exists>toks. tokenize (''x = 1 // one'' @ [newline] @ ''print(x)'') = Inr toks
     \<and> length toks = 8
     \<and> last toks = \<lparr>ttype = EOF, tvalue = NoValue, line = 2\<rparr>
     \<and> sorted (map line toks)"
proof -
  have t: "tokenize (''x = 1 // one'' @ [newline] @ ''print(x)'') =
      Inr [\<lparr>ttype = IDENT, tvalue = Txt ''x'', line = 1\<rparr>,
           \<lparr>ttype = ASSIGN, tvalue = Txt ''='', line = 1\<rparr>,
           \<lparr>ttype = NUMBER, tvalue = Num (VInt 1), line = 1\<rparr>,
           \<lparr>ttype = PRINT, tvalue = Txt ''print'', line = 2\<rparr>,
           \<lparr>ttype = LPAREN, tvalue = Txt ''('', line = 2\<rparr>,
           \<lparr>ttype = IDENT, tvalue = Txt ''x'', line = 2\<rparr>,
           \<lparr>ttype = RPAREN, tvalue = Txt '')'', line = 2\<rparr>,
           \<lparr>ttype = EOF, tvalue = NoValue, line = 2\<rparr>]"
    by code_simp
  show ?thesis
    using tokenize_ends_with_eof_and_lines_ascend[OF t] unfolding t by simp
qed

subsection \<open>Parser\<close>

lemma unary_doubled:
  "ttype t1 = MINUS \<Longrightarrow> ttype t2 = MINUS \<Longrightarrow> unary n (t1 # t2 # rest) = Some (Inl (Unexpected t2))"
  by (simp add: unary.simps primary.simps)

lemma expression_doubled:
  "ttype t1 = MINUS \<Longrightarrow> ttype t2 = MINUS \<Longrightarrow> expression n (t1 # t2 # rest) = Some (Inl (Unexpected t2))"
  by (simp add: expression.simps comparison.simps additive.simps multiplicative.simps power.simps unary_doubled)

lemma statement_doubled:
  "ttype t1 = MINUS \<Longrightarrow> ttype t2 = MINUS \<Longrightarrow> statement n (t1 # t2 # rest) = Some (Inl (Unexpected t2))"
  by (simp add: statement.simps expression_doubled)

lemma parse_doubled:
  "ttype t1 = MINUS \<Longrightarrow> ttype t2 = MINUS \<Longrightarrow> parse (t1 # t2 # rest) = Some (Inl (Unexpected t2))"
  by (simp add: parse_def statements_until.simps statement_doubled)

lemma primary_unexpected:
  "ttype t \<notin> {NUMBER, IDENT, LPAREN} \<Longrightarrow> primary n (t # rest) = Some (Inl (Unexpected t))"
  by (simp add: primary.simps)

lemma expression_unexpected:
  "ttype t \<notin> {NUMBER, IDENT, LPAREN, MINUS} \<Longrightarrow> expression n (t # rest) = Some (Inl (Unexpected t))"
  by (simp add: expression.simps comparison.simps additive.simps multiplicative.simps power.simps unary.simps primary.simps)

lemma statement_assign:
  "ttype t = ASSIGN \<Longrightarrow> statement n (t # rest) = Some (Inl (Unexpected t))"
  by (simp add: statement.simps expression_unexpected)

lemma statements_until_assign:
  "ttype t = ASSIGN \<Longrightarrow> stop \<noteq> ASSIGN \<Longrightarrow> statements_until n stop stmts (t # rest) = Some (Inl (Unexpected t))"
  by (simp add: statements_until.simps statement_assign)

text \<open>
  C9. The source \<open>a = b = 1\<close> does not parse. The statement rule reads \<open>a = b\<close> as an
  assignment of the variable \<open>b\<close> and stops before the second \<open>=\<close>; the next statement
  starts at that \<open>=\<close>, which no rule accepts: a statement that starts with \<open>=\<close> is refused
  whatever follows. \<open>run\<close> reports the syntax error and leaves the interpreter as it was.
\<close>

theorem chained_assignment_rejected:
  "(ttype t = ASSIGN \<longrightarrow>
      statement n (t # rest) = Some (Inl (Unexpected t))
      \<and> statements_until n EOF stmts (t # rest) = Some (Inl (Unexpected t)))
   \<and> tokenize ''a = b = 1'' =
      Inr [\<lparr>ttype = IDENT, tvalue = Txt ''a'', line = 1\<rparr>,
           \<lparr>ttype = ASSIGN, tvalue = Txt ''='', line = 1\<rparr>,
           \<lparr>ttype = IDENT, tvalue = Txt ''b'', line = 1\<rparr>,
           \<lparr>ttype = ASSIGN, tvalue = Txt ''='', line = 1\<rparr>,
           \<lparr>ttype = NUMBER, tvalue = Num (VInt 1), line = 1\<rparr>,
           \<lparr>ttype = EOF, tvalue = NoValue, line = 1\<rparr>]
   \<and> statement 6
        [\<lparr>ttype = IDENT, tvalue = Txt ''a'', line = 1\<rparr>,
         \<lparr>ttype = ASSIGN, tvalue = Txt ''='', line = 1\<rparr>,
         \<lparr>ttype = IDENT, tvalue = Txt ''b'', line = 1\<rparr>,
         \<lparr>ttype = ASSIGN, tvalue = Txt ''='', line = 1\<rparr>,
         \<lparr>ttype = NUMBER, tvalue = Num (VInt 1), line = 1\<rparr>,
         \<lparr>ttype = EOF, tvalue = NoValue, line = 1\<rparr>]
      = Some (Inr (AssignNode ''a'' (VarNode ''b''),
          [\<lparr>ttype = ASSIGN, tvalue = Txt ''='', line = 1\<rparr>,
           \<lparr>ttype = NUMBER, tvalue = Num (VInt 1), line = 1\<rparr>,
           \<lparr>ttype = EOF, tvalue = NoValue, line = 1\<rparr>]))
   \<and> ast_of ''a = b = 1''
      = Some (Inl (Unexpected \<lparr>ttype = ASSIGN, tvalue = Txt ''='', line = 1\<rparr>))
   \<and> class_of (Unexpected \<lparr>ttype = ASSIGN, tvalue = Txt ''='', line = 1\<rparr>) = SyntaxError
   \<and> run ''a = b = 1'' st = Some (Inr st)"
proof -
  have tk: "tokenize ''a = b = 1'' =
      Inr [\<lparr>ttype = IDENT, tvalue = Txt ''a'', line = 1\<rparr>,
           \<lparr>ttype = ASSIGN, tvalue = Txt ''='', line = 1\<rparr>,
           \<lparr>ttype = IDENT, tvalue = Txt ''b'', line = 1\<rparr>,
           \<lparr>ttype = ASSIGN, tvalue = Txt ''='', line = 1\<rparr>,
           \<lparr>ttype = NUMBER, tvalue = Num (VInt 1), line = 1\<rparr>,
           \<lparr>ttype = EOF, tvalue = NoValue, line = 1\<rparr>]"
    by code_simp
  have stm: "statement 6
        [\<lparr>ttype = IDENT, tvalue = Txt ''a'', line = 1\<rparr>,
         \<lparr>ttype = ASSIGN, tvalue = Txt ''='', line = 1\<rparr>,
         \<lparr>ttype = IDENT, tvalue = Txt ''b'', line = 1\<rparr>,
         \<lparr>ttype = ASSIGN, tvalue = Txt ''='', line = 1\<rparr>,
         \<lparr>ttype = NUMBER, tvalue = Num (VInt 1), line = 1\<rparr>,
         \<lparr>ttype = EOF, tvalue = NoValue, line = 1\<rparr>]
      = Some (Inr (AssignNode ''a'' (VarNode ''b''),
          [\<lparr>ttype = ASSIGN, tvalue = Txt ''='', line = 1\<rparr>,
           \<lparr>ttype = NUMBER, tvalue = Num (VInt 1), line = 1\<rparr>,
           \<lparr>ttype = EOF, tvalue = NoValue, line = 1\<rparr>]))"
    by code_simp
  have ast: "ast_of ''a = b = 1''
      = Some (Inl (Unexpected \<lparr>ttype = ASSIGN, tvalue = Txt ''='', line = 1\<rparr>))"
    by code_simp
  have "run ''a = b = 1'' st = Some (Inr st)"
    by (simp add: run_ast_of_error[OF ast] handle_def caught_def)
  then show ?thesis
    unfolding tk stm ast by (simp add: statement_assign statements_until_assign)
qed

theorem chained_assignment_rejected_witness:
  "statement 3 [\<lparr>ttype = ASSIGN, tvalue = Txt ''='', line = 1\<rparr>,
                \<lparr>ttype = NUMBER, tvalue = Num (VInt 1), line = 1\<rparr>,
                \<lparr>ttype = EOF, tvalue = NoValue, line = 1\<rparr>]
     = Some (Inl (Unexpected \<lparr>ttype = ASSIGN, tvalue = Txt ''='', line = 1\<rparr>))"
  using chained_assignment_rejected[where t = "\<lparr>ttype = ASSIGN, tvalue = Txt ''='', line = 1\<rparr>"
      and n = 3
      and rest = "[\<lparr>ttype = NUMBER, tvalue = Num (VInt 1), line = 1\<rparr>,
                   \<lparr>ttype = EOF, tvalue = NoValue, line = 1\<rparr>]"]
  by simp

lemma doubled_minus_operand:
  assumes "ttype t1 = MINUS" and "ttype t2 = MINUS"
  shows "power n (t1 # t2 # rest) = Some (Inl (Unexpected t2))"
    "multiplicative n (t1 # t2 # rest) = Some (Inl (Unexpected t2))"
    "additive n (t1 # t2 # rest) = Some (Inl (Unexpected t2))"
    "comparison n (t1 # t2 # rest) = Some (Inl (Unexpected t2))"
    "ttype t0 = MUL \<or> ttype t0 = DIV \<or> ttype t0 = MOD \<Longrightarrow>
       multiplicative_loop (Suc n) left (t0 # t1 # t2 # rest) = Some (Inl (Unexpected t2))"
    "ttype t0 = PLUS \<or> ttype t0 = MINUS \<Longrightarrow>
       additive_loop (Suc n) left (t0 # t1 # t2 # rest) = Some (Inl (Unexpected t2))"
    "comparison_ops (ttype t0) = Some op \<Longrightarrow>
       comparison_loop (Suc n) left (t0 # t1 # t2 # rest) = Some (Inl (Unexpected t2))"
    "ttype t0 = LPAREN \<Longrightarrow> primary (Suc n) (t0 # t1 # t2 # rest) = Some (Inl (Unexpected t2))"
    "unary (Suc n) ts = Some (Inr (base, t0 # t1 # t2 # rest)) \<Longrightarrow> ttype t0 = POW \<Longrightarrow>
       power (Suc n) ts = Some (Inl (Unexpected t2))"
proof -
  show p: "power n (t1 # t2 # rest) = Some (Inl (Unexpected t2))" for n
    by (simp add: power.simps unary_doubled[OF assms])
  show m: "multiplicative n (t1 # t2 # rest) = Some (Inl (Unexpected t2))" for n
    by (simp add: multiplicative.simps p)
  show a: "additive n (t1 # t2 # rest) = Some (Inl (Unexpected t2))" for n
    by (simp add: additive.simps m)
  show "comparison n (t1 # t2 # rest) = Some (Inl (Unexpected t2))"
    by (simp add: comparison.simps a)
  show "ttype t0 = MUL \<or> ttype t0 = DIV \<or> ttype t0 = MOD \<Longrightarrow>
       multiplicative_loop (Suc n) left (t0 # t1 # t2 # rest) = Some (Inl (Unexpected t2))"
    by (subst multiplicative_loop.simps) (simp add: p)
  show "ttype t0 = PLUS \<or> ttype t0 = MINUS \<Longrightarrow>
       additive_loop (Suc n) left (t0 # t1 # t2 # rest) = Some (Inl (Unexpected t2))"
    by (subst additive_loop.simps) (simp add: m)
  show "comparison_ops (ttype t0) = Some op \<Longrightarrow>
       comparison_loop (Suc n) left (t0 # t1 # t2 # rest) = Some (Inl (Unexpected t2))"
    by (subst comparison_loop.simps) (simp add: a)
  show "ttype t0 = LPAREN \<Longrightarrow> primary (Suc n) (t0 # t1 # t2 # rest) = Some (Inl (Unexpected t2))"
    by (subst primary.simps) (simp add: expression_doubled[OF assms])
  show "unary (Suc n) ts = Some (Inr (base, t0 # t1 # t2 # rest)) \<Longrightarrow> ttype t0 = POW \<Longrightarrow>
       power (Suc n) ts = Some (Inl (Unexpected t2))"
    by (subst power.simps) (simp add: p)
qed

text \<open>
  C10. The operand of a prefix minus is a primary. Where the unary rule meets two minus
  tokens in a row it fails at the second one, for any bound and any tokens after them,
  and so do the expression, the statement and the program that start there, and every
  rule that reads an operand there: after a binary operator, after \<open>**\<close>, after an opening
  parenthesis. So \<open>--5\<close> and \<open>- -5\<close> do not parse, nor does \<open>3 - - -5\<close>, whose first minus
  is the binary one. The source \<open>-(-5)\<close> parses and evaluates to 5.
\<close>

theorem doubled_minus_rejected:
  assumes "ttype t1 = MINUS" and "ttype t2 = MINUS"
  shows "unary n (t1 # t2 # rest) = Some (Inl (Unexpected t2))
     \<and> expression n (t1 # t2 # rest) = Some (Inl (Unexpected t2))
     \<and> statement n (t1 # t2 # rest) = Some (Inl (Unexpected t2))
     \<and> parse (t1 # t2 # rest) = Some (Inl (Unexpected t2))
     \<and> (ttype t0 = MUL \<or> ttype t0 = DIV \<or> ttype t0 = MOD \<longrightarrow>
          multiplicative_loop (Suc n) left (t0 # t1 # t2 # rest) = Some (Inl (Unexpected t2)))
     \<and> (ttype t0 = PLUS \<or> ttype t0 = MINUS \<longrightarrow>
          additive_loop (Suc n) left (t0 # t1 # t2 # rest) = Some (Inl (Unexpected t2)))
     \<and> (comparison_ops (ttype t0) \<noteq> None \<longrightarrow>
          comparison_loop (Suc n) left (t0 # t1 # t2 # rest) = Some (Inl (Unexpected t2)))
     \<and> (ttype t0 = LPAREN \<longrightarrow>
          primary (Suc n) (t0 # t1 # t2 # rest) = Some (Inl (Unexpected t2)))
     \<and> (unary (Suc n) ts = Some (Inr (base, t0 # t1 # t2 # rest)) \<and> ttype t0 = POW \<longrightarrow>
          power (Suc n) ts = Some (Inl (Unexpected t2)))
     \<and> class_of (Unexpected t2) = SyntaxError
     \<and> ast_of ''--5'' = Some (Inl (Unexpected \<lparr>ttype = MINUS, tvalue = Txt ''-'', line = 1\<rparr>))
     \<and> ast_of ''- -5'' = Some (Inl (Unexpected \<lparr>ttype = MINUS, tvalue = Txt ''-'', line = 1\<rparr>))
     \<and> ast_of ''3 - - -5''
         = Some (Inl (Unexpected \<lparr>ttype = MINUS, tvalue = Txt ''-'', line = 1\<rparr>))
     \<and> ast_of ''-(-5)''
         = Some (Inr (BlockNode [UnaryNode ''-'' (UnaryNode ''-'' (NumberNode (VInt 5)))]))
     \<and> eval (BlockNode [UnaryNode ''-'' (UnaryNode ''-'' (NumberNode (VInt 5)))]) st
         = (Inr (VInt 5), st)"
proof -
  have a1: "ast_of ''--5''
      = Some (Inl (Unexpected \<lparr>ttype = MINUS, tvalue = Txt ''-'', line = 1\<rparr>))"
    by code_simp
  have a2: "ast_of ''- -5''
      = Some (Inl (Unexpected \<lparr>ttype = MINUS, tvalue = Txt ''-'', line = 1\<rparr>))"
    by code_simp
  have a3: "ast_of ''3 - - -5''
      = Some (Inl (Unexpected \<lparr>ttype = MINUS, tvalue = Txt ''-'', line = 1\<rparr>))"
    by code_simp
  have a4: "ast_of ''-(-5)''
      = Some (Inr (BlockNode [UnaryNode ''-'' (UnaryNode ''-'' (NumberNode (VInt 5)))]))"
    by code_simp
  show ?thesis
    unfolding a1 a2 a3 a4
    using unary_doubled[OF assms] expression_doubled[OF assms] statement_doubled[OF assms]
      parse_doubled[OF assms] doubled_minus_operand(5-9)[OF assms]
    by auto
qed

theorem doubled_minus_rejected_witness:
  "parse [\<lparr>ttype = MINUS, tvalue = Txt ''-'', line = 1\<rparr>,
          \<lparr>ttype = MINUS, tvalue = Txt ''-'', line = 1\<rparr>,
          \<lparr>ttype = NUMBER, tvalue = Num (VInt 5), line = 1\<rparr>,
          \<lparr>ttype = EOF, tvalue = NoValue, line = 1\<rparr>]
     = Some (Inl (Unexpected \<lparr>ttype = MINUS, tvalue = Txt ''-'', line = 1\<rparr>))"
  using doubled_minus_rejected[where ?t1.0 = "\<lparr>ttype = MINUS, tvalue = Txt ''-'', line = 1\<rparr>"
      and ?t2.0 = "\<lparr>ttype = MINUS, tvalue = Txt ''-'', line = 1\<rparr>"
      and rest = "[\<lparr>ttype = NUMBER, tvalue = Num (VInt 5), line = 1\<rparr>,
                   \<lparr>ttype = EOF, tvalue = NoValue, line = 1\<rparr>]"]
  by simp

subsection \<open>Interpreter\<close>

text \<open>
  C3. When the operands of a \<open>/\<close> node evaluate and the right one is zero, the integer,
  the float or the complex, the node fails with the "Division by zero" error, a ZeroDivisionError,
  whatever the left value. A \<open>print\<close> of that node fails with it and the interpreter is
  as the operands left it: nothing is appended. \<open>run\<close> on \<open>print(5 / 0)\<close> reports the error
  and returns the interpreter unchanged.
\<close>

theorem division_by_zero_raises:
  assumes "eval left st = (Inr a, st1)" and "eval right st1 = (Inr b, st2)"
    and "b = VInt 0 \<or> b = VFloat 0 \<or> b = VComplex 0"
  shows "eval (BinOpNode left ''/'' right) st = (Inl DivisionByZero, st2)
     \<and> eval (PrintNode (BinOpNode left ''/'' right)) st = (Inl DivisionByZero, st2)
     \<and> class_of DivisionByZero = ZeroDivisionError
     \<and> ast_of ''print(5 / 0)'' =
         Some (Inr (BlockNode
           [PrintNode (BinOpNode (NumberNode (VInt 5)) ''/'' (NumberNode (VInt 0)))]))
     \<and> (\<forall>s. eval (BlockNode
           [PrintNode (BinOpNode (NumberNode (VInt 5)) ''/'' (NumberNode (VInt 0)))]) s
           = (Inl DivisionByZero, s))
     \<and> (\<forall>s. run ''print(5 / 0)'' s = Some (Inr s))"
proof -
  have ast: "ast_of ''print(5 / 0)'' =
      Some (Inr (BlockNode
        [PrintNode (BinOpNode (NumberNode (VInt 5)) ''/'' (NumberNode (VInt 0)))]))"
    by code_simp
  have "run ''print(5 / 0)'' s = Some (Inr s)" for s
    by (simp add: run_ast_of[OF ast] ops_def handle_def caught_def)
  moreover have "eval (BinOpNode left ''/'' right) st = (Inl DivisionByZero, st2)"
    using assms by (auto simp: ops_def)
  ultimately show ?thesis unfolding ast by (simp add: ops_def)
qed

theorem division_by_zero_raises_witness:
  "eval (PrintNode (BinOpNode (NumberNode (VInt 5)) ''/'' (NumberNode (VFloat 0)))) Interpreter
     = (Inl DivisionByZero, Interpreter)"
  using division_by_zero_raises[where left = "NumberNode (VInt 5)"
      and right = "NumberNode (VFloat 0)" and st = Interpreter and ?st1.0 = Interpreter
      and ?st2.0 = Interpreter and a = "VInt 5" and b = "VFloat 0"]
  by simp




text \<open>
  C7. When its expression evaluates to \<open>v\<close>, \<open>print\<close> returns the displayed value and
  appends it to the output log, changing nothing else: a float with no fractional part
  is displayed as the integer it equals, any other float and any other value as it is.
  \<open>print(6 / 3)\<close> logs the integer 2, \<open>print(7 / 2)\<close> the float 3.5.
\<close>

theorem print_displays_integral_float_as_int:
  assumes "eval e st = (Inr v, st1)"
  shows "(\<exists>d. eval (PrintNode e) st = (Inr d, st1\<lparr>output_log := output_log st1 @ [d]\<rparr>)
           \<and> (case v of
                 VFloat f \<Rightarrow> if frac f = 0 then d = VInt \<lfloor>f\<rfloor> else d = VFloat f
               | _ \<Rightarrow> d = v))
     \<and> (\<exists>s. run ''print(6 / 3)'' Interpreter = Some (Inr s) \<and> output_log s = [VInt 2])
     \<and> (\<exists>s. run ''print(7 / 2)'' Interpreter = Some (Inr s)
            \<and> output_log s = [VFloat (7 / 2)])"
proof -
  have a1: "ast_of ''print(6 / 3)'' =
      Some (Inr (BlockNode
        [PrintNode (BinOpNode (NumberNode (VInt 6)) ''/'' (NumberNode (VInt 3)))]))"
    by code_simp
  have a2: "ast_of ''print(7 / 2)'' =
      Some (Inr (BlockNode
        [PrintNode (BinOpNode (NumberNode (VInt 7)) ''/'' (NumberNode (VInt 2)))]))"
    by code_simp
  have r1: "\<exists>s. run ''print(6 / 3)'' Interpreter = Some (Inr s) \<and> output_log s = [VInt 2]"
    by (simp add: run_ast_of[OF a1] ops_def Interpreter_def Let_def)
  have r2: "\<exists>s. run ''print(7 / 2)'' Interpreter = Some (Inr s)
      \<and> output_log s = [VFloat (7 / 2)]"
    by (simp add: run_ast_of[OF a2] ops_def Interpreter_def Let_def)
  have g: "\<exists>d. eval (PrintNode e) st = (Inr d, st1\<lparr>output_log := output_log st1 @ [d]\<rparr>)
           \<and> (case v of
                 VFloat f \<Rightarrow> if frac f = 0 then d = VInt \<lfloor>f\<rfloor> else d = VFloat f
               | _ \<Rightarrow> d = v)"
  proof (cases v)
    case (VFloat f)
    have "of_int \<lfloor>f\<rfloor> = f \<longleftrightarrow> frac f = 0" by (auto simp: frac_def)
    moreover have "of_int \<lfloor>f\<rfloor> = f \<Longrightarrow> \<lceil>f\<rceil> = \<lfloor>f\<rfloor>" by (metis ceiling_of_int)
    ultimately show ?thesis using assms VFloat by (auto simp: Let_def)
  qed (use assms in \<open>auto simp: Let_def\<close>)
  from g r1 r2 show ?thesis by blast
qed

theorem print_displays_integral_float_as_int_witness:
  "eval (PrintNode (BinOpNode (NumberNode (VInt 6)) ''/'' (NumberNode (VInt 3)))) Interpreter
     = (Inr (VInt 2), \<lparr>env = Map.empty, output_log = [VInt 2]\<rparr>)"
proof -
  have h: "eval (BinOpNode (NumberNode (VInt 6)) ''/'' (NumberNode (VInt 3))) Interpreter
      = (Inr (VFloat 2), Interpreter)"
    by (simp add: ops_def)
  from print_displays_integral_float_as_int[OF h] show ?thesis
    by (auto simp: Interpreter_def)
qed

lemma while_loop_rounds:
  "rounds c b k st = Some stk \<Longrightarrow> i + k \<le> 10000 \<Longrightarrow>
   while_loop c b i st = while_loop c b (i + k) stk"
proof (induction k arbitrary: stk)
  case 0
  then show ?case by simp
next
  case (Suc k)
  from Suc.prems(1) obtain sk v s1 r where
    k: "rounds c b k st = Some sk" and c: "eval c sk = (Inr v, s1)" and t: "truthy v"
    and b: "eval_stmts b VNone s1 = (Inr r, stk)"
    by (auto split: option.splits sum.splits prod.splits if_splits)
  from Suc.IH[OF k] Suc.prems(2) have "while_loop c b i st = while_loop c b (i + k) sk" by simp
  also have "\<dots> = while_loop c b (i + Suc k) stk"
    using c t b Suc.prems(2) by (subst while_loop.simps) simp
  finally show ?case .
qed

lemma rounds_constant_true: "rounds (NumberNode (VInt 1)) [] k st = Some st"
  by (induction k) auto

text \<open>
  C1. Take a loop whose first \<open>k\<close> passes take place, \<open>k\<close> at most 10000, and whose condition
  is then evaluated once more, to \<open>v\<close>, leaving \<open>st1\<close>. If \<open>v\<close> is true and \<open>k\<close> is 10000, so
  that this is the 10001st evaluation of a condition that was never false, the loop
  fails there with the iteration-bound RuntimeError and the body does not run again.
  If \<open>v\<close> is false, the loop ends there without an error, also when \<open>k\<close> is 10000.
\<close>

theorem while_iteration_bound:
  assumes "rounds condition body k st = Some stk" and "eval condition stk = (Inr v, st1)"
    and "k \<le> 10000"
  shows "(truthy v \<and> k = 10000 \<longrightarrow>
            eval (WhileNode condition body) st = (Inl InfiniteLoop, st1))
       \<and> (\<not> truthy v \<longrightarrow> eval (WhileNode condition body) st = (Inr VNone, st1))
       \<and> class_of InfiniteLoop = RuntimeError"
proof -
  have "eval (WhileNode condition body) st = while_loop condition body k stk"
    using while_loop_rounds[OF assms(1), of 0] assms(3) by simp
  also have "\<dots> =
      (if truthy v
       then (if k + 1 > 10000 then (Inl InfiniteLoop, st1)
             else (case eval_stmts body VNone st1 of
                     (Inl err, st2) \<Rightarrow> (Inl err, st2)
                   | (Inr r, st2) \<Rightarrow> while_loop condition body (k + 1) st2))
       else (Inr VNone, st1))"
    by (subst while_loop.simps) (simp add: assms(2))
  finally show ?thesis by simp
qed

theorem while_iteration_bound_witness:
  "ast_of ''while (1) { }'' = Some (Inr (BlockNode [WhileNode (NumberNode (VInt 1)) []]))
   \<and> eval (WhileNode (NumberNode (VInt 1)) []) Interpreter = (Inl InfiniteLoop, Interpreter)
   \<and> eval (WhileNode (NumberNode (VInt 0)) [PrintNode (NumberNode (VInt 7))]) Interpreter
       = (Inr VNone, Interpreter)
   \<and> (\<exists>s. run ''i = 0; while (i < 5) { print(i); i = i + 1 }'' Interpreter = Some (Inr s)
          \<and> output_log s = [VInt 0, VInt 1, VInt 2, VInt 3, VInt 4])"
proof -
  have a: "ast_of ''while (1) { }'' = Some (Inr (BlockNode [WhileNode (NumberNode (VInt 1)) []]))"
    by code_simp
  have b: "ast_of ''i = 0; while (i < 5) { print(i); i = i + 1 }'' =
     Some (Inr (BlockNode [AssignNode ''i'' (NumberNode (VInt 0)),
        WhileNode (BinOpNode (VarNode ''i'') ''<'' (NumberNode (VInt 5)))
          [PrintNode (VarNode ''i''),
           AssignNode ''i'' (BinOpNode (VarNode ''i'') ''+'' (NumberNode (VInt 1)))]]))"
    by code_simp
  have c: "\<exists>s. run ''i = 0; while (i < 5) { print(i); i = i + 1 }'' Interpreter = Some (Inr s)
      \<and> output_log s = [VInt 0, VInt 1, VInt 2, VInt 3, VInt 4]"
    by (simp add: run_ast_of[OF b] while_loop.simps ops_def Interpreter_def Let_def py_int_def
        of_bool_val_def)
  show ?thesis
    unfolding a using c
    using while_iteration_bound[where condition = "NumberNode (VInt 1)" and body = "[]"
        and k = 10000 and st = Interpreter and stk = Interpreter and v = "VInt 1"
        and ?st1.0 = Interpreter]
      while_iteration_bound[where condition = "NumberNode (VInt 0)"
        and body = "[PrintNode (NumberNode (VInt 7))]"
        and k = 0 and st = Interpreter and stk = Interpreter and v = "VInt 0"
        and ?st1.0 = Interpreter]
    by (simp add: rounds_constant_true)
qed

lemma extends_refl: "extends st st"
  by (simp add: extends_def)

lemma extends_trans: "extends a b \<Longrightarrow> extends b c \<Longrightarrow> extends a c"
  by (auto simp: extends_def)

lemma extends_assign: "extends a b \<Longrightarrow> extends a (b\<lparr>env := (env b)(x \<mapsto> v)\<rparr>)"
  by (auto simp: extends_def)

lemma extends_print: "extends a b \<Longrightarrow> extends a (b\<lparr>output_log := output_log b @ [v]\<rparr>)"
  by (auto simp: extends_def)

lemma snd_discard: "snd (discard r) = snd r"
  by (cases r) (auto simp: discard_def split: sum.splits)

lemma eval_extends:
  "extends st (snd (eval n st))"
  "extends st (snd (eval_stmts ss r st))"
  "extends st (snd (while_loop c b i st))"
proof (induction n st and ss r st and c b i st rule: eval_eval_stmts_while_loop.induct)
  case (1 statements st)
  then show ?case by simp
next
  case (2 v st)
  then show ?case by (simp add: extends_refl)
next
  case (3 name st)
  then show ?case by (simp add: extends_refl split: option.splits)
next
  case (4 name e st)
  then show ?case by (auto split: prod.splits sum.splits intro: extends_assign)
next
  case (5 left op right st)
  then show ?case
    by (auto split: prod.splits sum.splits option.splits intro: extends_trans)
next
  case (6 op operand st)
  then show ?case by (auto split: prod.splits sum.splits)
next
  case (7 e st)
  then show ?case by (auto simp: Let_def split: prod.splits sum.splits intro: extends_print)
next
  case (8 condition then_body else_body st)
  then show ?case
    by (auto simp: snd_discard split: prod.splits sum.splits option.splits intro: extends_trans)
next
  case (9 condition body st)
  then show ?case by simp
next
  case (10 result st)
  then show ?case by (simp add: extends_refl)
next
  case (11 stmt stmts result st)
  then show ?case by (auto split: prod.splits sum.splits intro: extends_trans)
next
  case (12 condition body iterations st)
  obtain x st1 where c: "eval condition st = (x, st1)" by (cases "eval condition st")
  with "12.IH"(1) have e1: "extends st st1" by simp
  show ?case
  proof (cases x)
    case (Inl err)
    with c e1 show ?thesis by (subst while_loop.simps) simp
  next
    case (Inr v)
    show ?thesis
    proof (cases "truthy v \<and> \<not> iterations + 1 > 10000")
      case False
      with c e1 Inr show ?thesis by (subst while_loop.simps) auto
    next
      case True
      obtain y st2 where b: "eval_stmts body VNone st1 = (y, st2)"
        by (cases "eval_stmts body VNone st1")
      from "12.IH"(2)[OF c[symmetric] Inr] True b have e2: "extends st1 st2" by simp
      show ?thesis
      proof (cases y)
        case (Inl err)
        with c Inr True b extends_trans[OF e1 e2] show ?thesis
          by (subst while_loop.simps) simp
      next
        case r: (Inr r)
        from "12.IH"(3)[OF c[symmetric] Inr _ _ b[symmetric] r] True
        have "extends st2 (snd (while_loop condition body (iterations + 1) st2))" by simp
        with c Inr True b r extends_trans[OF extends_trans[OF e1 e2]] show ?thesis
          by (subst while_loop.simps) simp
      qed
    qed
  qed
qed

lemma eval_stmts_fails_at:
  "eval_stmts pre r0 st = (Inr r, st1) \<Longrightarrow> eval s st1 = (Inl e, st2) \<Longrightarrow>
   eval_stmts (pre @ s # post) r0 st = (Inl e, st2)"
  by (induction pre arbitrary: r0 st) (auto split: prod.splits sum.splits)


lemma eval_frame:
  "x \<notin> assigned n \<Longrightarrow> env (snd (eval n st)) x = env st x"
  "x \<notin> (\<Union>s \<in> set ss. assigned s) \<Longrightarrow> env (snd (eval_stmts ss r st)) x = env st x"
  "x \<notin> assigned c \<union> (\<Union>s \<in> set b. assigned s) \<Longrightarrow>
     env (snd (while_loop c b i st)) x = env st x"
proof (induction n st and ss r st and c b i st rule: eval_eval_stmts_while_loop.induct)
  case (1 statements st)
  then show ?case by simp
next
  case (2 v st)
  then show ?case by simp
next
  case (3 name st)
  then show ?case by (simp split: option.splits)
next
  case (4 name e st)
  then show ?case by (auto split: prod.splits sum.splits)
next
  case (5 left op right st)
  then show ?case
    by (auto split: prod.splits sum.splits option.splits)
next
  case (6 op operand st)
  then show ?case by (auto split: prod.splits sum.splits)
next
  case (7 e st)
  then show ?case by (auto simp: Let_def split: prod.splits sum.splits)
next
  case (8 condition then_body else_body st)
  then show ?case
    by (auto simp: snd_discard split: prod.splits sum.splits option.splits)
next
  case (9 condition body st)
  then show ?case by simp
next
  case (10 result st)
  then show ?case by simp
next
  case (11 stmt stmts result st)
  then show ?case by (auto split: prod.splits sum.splits)
next
  case (12 condition body iterations st)
  from "12.prems" have xc: "x \<notin> assigned condition" and xb: "x \<notin> (\<Union>s \<in> set body. assigned s)"
    by auto
  obtain y st1 where c: "eval condition st = (y, st1)" by (cases "eval condition st")
  with "12.IH"(1)[OF xc] have e1: "env st1 x = env st x" by simp
  show ?case
  proof (cases y)
    case (Inl err)
    with c e1 show ?thesis by (subst while_loop.simps) simp
  next
    case (Inr v)
    show ?thesis
    proof (cases "truthy v \<and> \<not> iterations + 1 > 10000")
      case False
      with c e1 Inr show ?thesis by (subst while_loop.simps) auto
    next
      case True
      obtain z st2 where b: "eval_stmts body VNone st1 = (z, st2)"
        by (cases "eval_stmts body VNone st1")
      from "12.IH"(2)[OF c[symmetric] Inr _ _ xb] True b have e2: "env st2 x = env st1 x" by simp
      show ?thesis
      proof (cases z)
        case (Inl err)
        with c Inr True b e1 e2 show ?thesis
          by (subst while_loop.simps) simp
      next
        case r: (Inr r)
        from "12.IH"(3)[OF c[symmetric] Inr _ _ b[symmetric] r "12.prems"] True
        have "env (snd (while_loop condition body (iterations + 1) st2)) x = env st2 x" by simp
        with c Inr True b r e1 e2 show ?thesis
          by (subst while_loop.simps) simp
      qed
    qed
  qed
qed

lemma if_then_fails_at:
  assumes "eval c st = (Inr v, sa)" and "truthy v"
    and "eval_stmts tpre VNone sa = (Inr r, sb)" and "eval t sb = (Inl e, sc)"
  shows "eval (IfNode c (tpre @ t # tpost) eb) st = (Inl e, sc)"
  using assms(1,2) eval_stmts_fails_at[OF assms(3,4)] by (simp add: discard_def)

lemma if_else_fails_at:
  assumes "eval c st = (Inr v, sa)" and "\<not> truthy v"
    and "eval_stmts tpre VNone sa = (Inr r, sb)" and "eval t sb = (Inl e, sc)"
  shows "eval (IfNode c tb (Some (tpre @ t # tpost))) st = (Inl e, sc)"
  using assms(1,2) eval_stmts_fails_at[OF assms(3,4)] by (simp add: discard_def)

lemma while_after_rounds:
  assumes "rounds c b k st = Some stk" and "k \<le> 10000" and "eval c stk = (x, sa)"
  shows "eval (WhileNode c b) st =
     (case x of
        Inl err \<Rightarrow> (Inl err, sa)
      | Inr v \<Rightarrow>
          if truthy v
          then (if k + 1 > 10000 then (Inl InfiniteLoop, sa)
                else (case eval_stmts b VNone sa of
                        (Inl err, st2) \<Rightarrow> (Inl err, st2)
                      | (Inr r, st2) \<Rightarrow> while_loop c b (k + 1) st2))
          else (Inr VNone, sa))"
proof -
  have "eval (WhileNode c b) st = while_loop c b k stk"
    using while_loop_rounds[OF assms(1), of 0] assms(2) by simp
  also have "\<dots> = (case x of
        Inl err \<Rightarrow> (Inl err, sa)
      | Inr v \<Rightarrow>
          if truthy v
          then (if k + 1 > 10000 then (Inl InfiniteLoop, sa)
                else (case eval_stmts b VNone sa of
                        (Inl err, st2) \<Rightarrow> (Inl err, st2)
                      | (Inr r, st2) \<Rightarrow> while_loop c b (k + 1) st2))
          else (Inr VNone, sa))"
    by (subst while_loop.simps) (simp add: assms(3))
  finally show ?thesis .
qed

lemma while_body_fails_at:
  assumes "rounds c (tpre @ t # tpost) k st = Some stk" and "k < 10000"
    and "eval c stk = (Inr v, sa)" and "truthy v"
    and "eval_stmts tpre VNone sa = (Inr r, sb)" and "eval t sb = (Inl e, sc)"
  shows "eval (WhileNode c (tpre @ t # tpost)) st = (Inl e, sc)"
  using while_after_rounds[OF assms(1) _ assms(3)] assms(2,4) eval_stmts_fails_at[OF assms(5,6)]
  by simp

text \<open>
  C4. Nothing is undone when an evaluation fails. When the statements before the i-th
  of a block run, leaving \<open>st1\<close>, and the i-th fails, leaving \<open>st2\<close>, the block fails with
  that error and the interpreter is \<open>st2\<close>; the later statements do not run. In \<open>st2\<close> the
  log of \<open>st1\<close> is still there, every name bound in \<open>st1\<close> is bound, and a name that the
  failing statement does not assign has the value it had in \<open>st1\<close>. When \<open>run\<close> catches the
  error it returns \<open>st2\<close>, the interpreter the next call of \<open>run\<close> starts from. The state
  the failing statement leaves is the state of its own steps up to the error: an
  assignment or a \<open>print\<close> whose expression fails leaves what the expression left; an
  \<open>if\<close> or a \<open>while\<close> whose condition fails leaves what the condition left, after the passes
  of the loop that were completed; an \<open>if\<close> or a \<open>while\<close> whose body fails at a statement
  leaves what that statement left, after the condition, the completed passes and the
  statements of the body before it. An assignment that completes binds its name to the
  value.
\<close>

theorem failure_keeps_earlier_effects:
  "(eval_stmts pre VNone st = (Inr r, st1) \<and> eval s st1 = (Inl e, st2) \<longrightarrow>
      eval (BlockNode (pre @ s # post)) st = (Inl e, st2)
      \<and> prefix (output_log st) (output_log st1) \<and> prefix (output_log st1) (output_log st2)
      \<and> dom (env st) \<subseteq> dom (env st1) \<and> dom (env st1) \<subseteq> dom (env st2)
      \<and> (\<forall>x. x \<notin> assigned s \<longrightarrow> env st2 x = env st1 x)
      \<and> (ast_of source = Some (Inr (BlockNode (pre @ s # post))) \<and> caught e
           \<longrightarrow> run source st = Some (Inr st2)))
   \<and> (eval ex sx = (Inr w, sy) \<longrightarrow>
        eval (AssignNode name ex) sx = (Inr w, sy\<lparr>env := (env sy)(name \<mapsto> w)\<rparr>))
   \<and> (eval ex sx = (Inl e', sy) \<longrightarrow>
        eval (AssignNode name ex) sx = (Inl e', sy) \<and> eval (PrintNode ex) sx = (Inl e', sy))
   \<and> (eval c sx = (Inl e', sa) \<longrightarrow> eval (IfNode c tb eb) sx = (Inl e', sa))
   \<and> (eval c sx = (Inr v, sa) \<and> truthy v
        \<and> eval_stmts tpre VNone sa = (Inr r', sb) \<and> eval t sb = (Inl e', sc)
        \<longrightarrow> eval (IfNode c (tpre @ t # tpost) eb) sx = (Inl e', sc))
   \<and> (eval c sx = (Inr v, sa) \<and> \<not> truthy v
        \<and> eval_stmts tpre VNone sa = (Inr r', sb) \<and> eval t sb = (Inl e', sc)
        \<longrightarrow> eval (IfNode c tb (Some (tpre @ t # tpost))) sx = (Inl e', sc))
   \<and> (rounds c body k sx = Some stk \<and> k \<le> 10000 \<and> eval c stk = (Inl e', sa)
        \<longrightarrow> eval (WhileNode c body) sx = (Inl e', sa))
   \<and> (rounds c (tpre @ t # tpost) k sx = Some stk \<and> k < 10000
        \<and> eval c stk = (Inr v, sa) \<and> truthy v
        \<and> eval_stmts tpre VNone sa = (Inr r', sb) \<and> eval t sb = (Inl e', sc)
        \<longrightarrow> eval (WhileNode c (tpre @ t # tpost)) sx = (Inl e', sc))"
proof -
  have blk: "eval_stmts pre VNone st = (Inr r, st1) \<and> eval s st1 = (Inl e, st2) \<longrightarrow>
      eval (BlockNode (pre @ s # post)) st = (Inl e, st2)
      \<and> prefix (output_log st) (output_log st1) \<and> prefix (output_log st1) (output_log st2)
      \<and> dom (env st) \<subseteq> dom (env st1) \<and> dom (env st1) \<subseteq> dom (env st2)
      \<and> (\<forall>x. x \<notin> assigned s \<longrightarrow> env st2 x = env st1 x)
      \<and> (ast_of source = Some (Inr (BlockNode (pre @ s # post))) \<and> caught e
           \<longrightarrow> run source st = Some (Inr st2))"
  proof (intro impI)
    assume "eval_stmts pre VNone st = (Inr r, st1) \<and> eval s st1 = (Inl e, st2)"
    then have h: "eval_stmts pre VNone st = (Inr r, st1)" "eval s st1 = (Inl e, st2)"
      by simp_all
    have b: "eval (BlockNode (pre @ s # post)) st = (Inl e, st2)"
      using eval_stmts_fails_at[OF h] by simp
    have "extends st st1" "extends st1 st2"
      using eval_extends(2)[of st pre VNone] eval_extends(1)[of st1 s] h by simp_all
    then have "prefix (output_log st) (output_log st1)"
      "prefix (output_log st1) (output_log st2)"
      "dom (env st) \<subseteq> dom (env st1)" "dom (env st1) \<subseteq> dom (env st2)"
      by (auto simp: extends_def)
    moreover have "\<forall>x. x \<notin> assigned s \<longrightarrow> env st2 x = env st1 x"
      using eval_frame(1)[of _ s st1] h(2) by simp
    moreover have "run source st = Some (Inr st2)"
      if "ast_of source = Some (Inr (BlockNode (pre @ s # post)))" "caught e"
      using that b by (simp add: run_ast_of handle_def)
    ultimately show "eval (BlockNode (pre @ s # post)) st = (Inl e, st2)
      \<and> prefix (output_log st) (output_log st1) \<and> prefix (output_log st1) (output_log st2)
      \<and> dom (env st) \<subseteq> dom (env st1) \<and> dom (env st1) \<subseteq> dom (env st2)
      \<and> (\<forall>x. x \<notin> assigned s \<longrightarrow> env st2 x = env st1 x)
      \<and> (ast_of source = Some (Inr (BlockNode (pre @ s # post))) \<and> caught e
           \<longrightarrow> run source st = Some (Inr st2))"
      using b by blast
  qed
  have as: "eval ex sx = (Inr w, sy) \<longrightarrow>
        eval (AssignNode name ex) sx = (Inr w, sy\<lparr>env := (env sy)(name \<mapsto> w)\<rparr>)"
    by simp
  have af: "eval ex sx = (Inl e', sy) \<longrightarrow>
        eval (AssignNode name ex) sx = (Inl e', sy) \<and> eval (PrintNode ex) sx = (Inl e', sy)"
    by simp
  have i0: "eval c sx = (Inl e', sa) \<longrightarrow> eval (IfNode c tb eb) sx = (Inl e', sa)"
    by simp
  have i1: "eval c sx = (Inr v, sa) \<and> truthy v
        \<and> eval_stmts tpre VNone sa = (Inr r', sb) \<and> eval t sb = (Inl e', sc)
        \<longrightarrow> eval (IfNode c (tpre @ t # tpost) eb) sx = (Inl e', sc)"
    using if_then_fails_at[of c sx v sa tpre r' sb t e' sc tpost eb] by blast
  have i2: "eval c sx = (Inr v, sa) \<and> \<not> truthy v
        \<and> eval_stmts tpre VNone sa = (Inr r', sb) \<and> eval t sb = (Inl e', sc)
        \<longrightarrow> eval (IfNode c tb (Some (tpre @ t # tpost))) sx = (Inl e', sc)"
    using if_else_fails_at[of c sx v sa tpre r' sb t e' sc tb tpost] by blast
  have w0: "rounds c body k sx = Some stk \<and> k \<le> 10000 \<and> eval c stk = (Inl e', sa)
        \<longrightarrow> eval (WhileNode c body) sx = (Inl e', sa)"
    using while_after_rounds[of c body k sx stk "Inl e'" sa] by auto
  have w1: "rounds c (tpre @ t # tpost) k sx = Some stk \<and> k < 10000
        \<and> eval c stk = (Inr v, sa) \<and> truthy v
        \<and> eval_stmts tpre VNone sa = (Inr r', sb) \<and> eval t sb = (Inl e', sc)
        \<longrightarrow> eval (WhileNode c (tpre @ t # tpost)) sx = (Inl e', sc)"
    using while_body_fails_at[of c tpre t tpost k sx stk v sa r' sb e' sc] by blast
  show ?thesis
    by (intro conjI) (fact blk, fact as, fact af, fact i0, fact i1, fact i2, fact w0, fact w1)
qed

theorem failure_keeps_earlier_effects_witness:
  "\<exists>st2. run ''i = 0 while (i < 5) { print(i) i = i + 1 y = 1 / (2 - i) }'' Interpreter
        = Some (Inr st2)
      \<and> output_log st2 = [VInt 0, VInt 1]
      \<and> env st2 ''i'' = Some (VInt 2) \<and> env st2 ''y'' = Some (VFloat 1)
      \<and> (\<exists>st3. run ''print(i) print(y)'' st2 = Some (Inr st3)
            \<and> output_log st3 = [VInt 0, VInt 1, VInt 2, VInt 1])"
proof -
  let ?src = "''i = 0 while (i < 5) { print(i) i = i + 1 y = 1 / (2 - i) }''"
  let ?c = "BinOpNode (VarNode ''i'') ''<'' (NumberNode (VInt 5))"
  let ?tpre = "[PrintNode (VarNode ''i''),
                AssignNode ''i'' (BinOpNode (VarNode ''i'') ''+'' (NumberNode (VInt 1)))]"
  let ?ex = "BinOpNode (NumberNode (VInt 1)) ''/''
               (BinOpNode (NumberNode (VInt 2)) ''-'' (VarNode ''i''))"
  let ?t = "AssignNode ''y'' ?ex"
  let ?w = "WhileNode ?c (?tpre @ ?t # [])"
  let ?pre = "[AssignNode ''i'' (NumberNode (VInt 0))]"
  let ?st1 = "\<lparr>env = [''i'' \<mapsto> VInt 0], output_log = []\<rparr>"
  let ?stk = "\<lparr>env = [''i'' \<mapsto> VInt 1, ''y'' \<mapsto> VFloat 1], output_log = [VInt 0]\<rparr>"
  let ?sb = "\<lparr>env = [''i'' \<mapsto> VInt 1, ''y'' \<mapsto> VFloat 1, ''i'' \<mapsto> VInt 2],
              output_log = [VInt 0, VInt 1]\<rparr>"
  have a: "ast_of ?src = Some (Inr (BlockNode (?pre @ ?w # [])))"
    by code_simp
  have a2: "ast_of ''print(i) print(y)'' =
      Some (Inr (BlockNode [PrintNode (VarNode ''i''), PrintNode (VarNode ''y'')]))"
    by code_simp
  note T = failure_keeps_earlier_effects[where pre = ?pre and s = ?w and post = "[]"
      and st = Interpreter and r = "VInt 0" and ?st1.0 = ?st1 and e = DivisionByZero
      and ?st2.0 = ?sb and source = ?src
      and c = ?c and tpre = ?tpre and t = ?t and tpost = "[]" and k = 1 and sx = ?st1
      and stk = ?stk and v = "VInt 1" and sa = ?stk and r' = "VInt 2" and sb = ?sb
      and e' = DivisionByZero and sc = ?sb
      and ex = ?ex and sy = ?sb and name = "''y''"]
  have h1: "rounds ?c (?tpre @ ?t # []) 1 ?st1 = Some ?stk"
    by (simp add: ops_def py_int_def of_bool_val_def Let_def)
  have h2: "eval ?c ?stk = (Inr (VInt 1), ?stk)"
    by (simp add: ops_def py_int_def of_bool_val_def)
  have h3: "eval_stmts ?tpre VNone ?stk = (Inr (VInt 2), ?sb)"
    by (simp add: ops_def Let_def)
  have h4: "eval ?ex ?sb = (Inl DivisionByZero, ?sb)"
    by (simp add: ops_def)
  have h5: "eval ?t ?sb = (Inl DivisionByZero, ?sb)"
    using T h4 by simp
  have f: "eval ?w ?st1 = (Inl DivisionByZero, ?sb)"
    using T h1 h2 h3 h5 by simp
  have p: "eval_stmts ?pre VNone Interpreter = (Inr (VInt 0), ?st1)"
    by (simp add: Interpreter_def)
  have "run ?src Interpreter = Some (Inr ?sb)"
    using T p f a by (simp add: caught_def)
  moreover have "\<exists>st3. run ''print(i) print(y)'' ?sb = Some (Inr st3)
      \<and> output_log st3 = [VInt 0, VInt 1, VInt 2, VInt 1]"
    by (simp add: run_ast_of[OF a2] Let_def)
  ultimately show ?thesis by simp
qed

end
